theory Spec2Isabelle
  imports
    Main
    "HOL-Library.AList"
    "HOL-Library.FSet"
    "HOL-Library.Char_ord"
    "HOL-Library.List_Lexorder"
begin

section \<open>Data model of \<open>topic_modeling_agent.py\<close>\<close>

text \<open>
  Python strings are modelled as \<^typ>\<open>string\<close>, a list of 8-bit characters read as the
  code points U+0000 to U+00FF. Python dictionaries are association lists in insertion
  order; \<^const>\<open>map_of\<close> is the lookup and \<^const>\<open>AList.update\<close> is item assignment
  (it overwrites in place or appends a new key at the end, as a \<open>dict\<close> does).

  A value of a parsed JSON object is either a string or something else (a number, a list,
  \<open>null\<close>, a nested object); only strings have a \<open>split\<close> method, so the second case
  keeps an opaque payload.
\<close>

datatype error = RuntimeError | ValueError | AttributeError | KeyError | IllegalCharacterError

datatype 'a jval = JStr string | JOther 'a

type_synonym 'a pyrecord = "(string \<times> 'a jval) list"

type_synonym methods = "(string \<times> string list) list"

type_synonym normmap = "(string \<times> string fset) list"

text \<open>
  A \<open>pandas.DataFrame\<close>: its column index and its rows. A row lists the cells that hold
  a value; a column missing from a row is a \<open>NaN\<close> cell.
\<close>

record 'a frame =
  columns :: "string list"
  rows :: "'a pyrecord list"

text \<open>
  The Excel file after a run: a file as \<open>main\<close> found it or wrote it (\<open>None\<close> when there is
  no file), or what an interrupted write leaves behind.
\<close>

datatype 'a excel_file = File "'a frame option" | PartlyWritten

section \<open>String operations of the Python standard library\<close>

text \<open>\<open>str.isspace\<close> on one code point below U+0100.\<close>

definition isspace :: "char \<Rightarrow> bool" where
  "isspace c = (c \<in> set [CHR 0x09, CHR 0x0A, CHR 0x0B, CHR 0x0C, CHR 0x0D,
                        CHR 0x1C, CHR 0x1D, CHR 0x1E, CHR 0x1F, CHR 0x20,
                        CHR 0x85, CHR 0xA0])"

text \<open>\<open>str.strip()\<close>: leading and trailing whitespace removed.\<close>

definition strip :: "string \<Rightarrow> string" where
  "strip s = rev (dropWhile isspace (rev (dropWhile isspace s)))"

text \<open>\<open>str.lower()\<close>: A to Z and the Latin-1 capitals move up by 32.\<close>

definition lower_char :: "char \<Rightarrow> char" where
  "lower_char c =
     (let n = (of_char c :: nat) in
      if (65 \<le> n \<and> n \<le> 90) \<or> (192 \<le> n \<and> n \<le> 222 \<and> n \<noteq> 215)
      then char_of (n + 32) else c)"

definition lower :: "string \<Rightarrow> string" where
  "lower s = map lower_char s"

text \<open>
  \<open>s.split(sep)\<close> for a one-character separator. The result is never empty (lemma
  \<open>split_not_Nil\<close> below), so the first branch of the \<open>case\<close> is never taken.
\<close>

fun split :: "char \<Rightarrow> string \<Rightarrow> string list" where
  "split sep [] = [[]]"
| "split sep (c # cs) =
     (if c = sep then [] # split sep cs
      else (case split sep cs of [] \<Rightarrow> [[c]] | w # ws \<Rightarrow> (c # w) # ws))"

text \<open>\<open>sep.join(xs)\<close>.\<close>

fun join :: "string \<Rightarrow> string list \<Rightarrow> string" where
  "join sep [] = []"
| "join sep [x] = x"
| "join sep (x # y # ys) = x @ sep @ join sep (y # ys)"

text \<open>\<open>os.path.basename\<close> (POSIX): what follows the last slash.\<close>

definition basename :: "string \<Rightarrow> string" where
  "basename p = rev (takeWhile (\<lambda>c. c \<noteq> CHR ''/'') (rev p))"

section \<open>The vocabulary: \<open>enum_methods\<close> and \<open>normalize_map\<close>\<close>

text \<open>
  Lines 13 to 23. The argument is the parsed content of \<open>topic_methods.json\<close>, or
  \<open>None\<close> when the file does not exist.
\<close>

definition enum_methods :: "methods option \<Rightarrow> methods" where
  "enum_methods file =
     (case file of
        Some loaded \<Rightarrow> loaded
      | None \<Rightarrow> [(''AnalyzedFields'', []), (''TermPreprocessing'', []),
                 (''Clustering'', []), (''ClusterAnalysis'', [])])"

text \<open>Line 54: \<open>{k: set(v) for k, v in enum_methods.items()}\<close>.\<close>

definition normalize_map :: "methods \<Rightarrow> normmap" where
  "normalize_map em = map (\<lambda>(k, v). (k, fset_of_list v)) em"

text \<open>Lines 125 to 127: what \<open>save_methods\<close> writes, labels sorted per category.\<close>

definition save_methods :: "normmap \<Rightarrow> methods" where
  "save_methods nm = map (\<lambda>(k, v). (k, sorted_list_of_fset v)) nm"

section \<open>Normalisation: the loops of \<open>process_pdf\<close>\<close>

text \<open>Line 112: \<open>[i.strip() for i in raw.split(";") if i.strip()]\<close>.\<close>

definition items :: "string \<Rightarrow> string list" where
  "items raw = map strip (filter (\<lambda>i. strip i \<noteq> []) (split CHR '';'' raw))"

text \<open>
  Lines 114 to 120, the loop over \<open>items\<close>. \<open>known\<close> is \<open>enum_methods[key]\<close>,
  \<open>normalized\<close> the list built so far. \<open>normalize_map[key]\<close> is looked up when an item
  is added and raises \<open>KeyError\<close> for a missing key; additions made before an error stay.
\<close>

fun normalize_items ::
  "string \<Rightarrow> string list \<Rightarrow> normmap \<Rightarrow> string list \<Rightarrow> string list
     \<Rightarrow> (error + string list) \<times> normmap" where
  "normalize_items key known nm normalized [] = (Inr normalized, nm)"
| "normalize_items key known nm normalized (it # its) =
     (if lower it = ''not specified''
      then normalize_items key known nm (normalized @ [''Not specified'']) its
      else if it \<notin> set known
      then (case map_of nm key of
              None \<Rightarrow> (Inl KeyError, nm)
            | Some labels \<Rightarrow>
                normalize_items key known (AList.update key (finsert it labels) nm)
                  (normalized @ [it]) its)
      else normalize_items key known nm (normalized @ [it]) its)"

text \<open>Line 111: \<open>record.get(key, "Not specified")\<close>.\<close>

definition get_field :: "'a pyrecord \<Rightarrow> string \<Rightarrow> 'a jval" where
  "get_field record key =
     (case map_of record key of None \<Rightarrow> JStr ''Not specified'' | Some v \<Rightarrow> v)"

text \<open>
  Lines 110 to 123, the loop over \<open>enum_methods\<close>, whose remaining entries are the last
  argument. A field that is not a string has no \<open>split\<close>: \<open>AttributeError\<close>. The
  vocabulary is global state, so it is returned on failure as well.
\<close>

fun normalize_keys ::
  "normmap \<Rightarrow> 'a pyrecord \<Rightarrow> methods \<Rightarrow> (error + 'a pyrecord) \<times> normmap" where
  "normalize_keys nm record [] = (Inr record, nm)"
| "normalize_keys nm record ((key, known) # rest) =
     (case get_field record key of
        JOther x \<Rightarrow> (Inl AttributeError, nm)
      | JStr raw \<Rightarrow>
          (case normalize_items key known nm [] (items raw) of
             (Inl e, nm') \<Rightarrow> (Inl e, nm')
           | (Inr normalized, nm') \<Rightarrow>
               normalize_keys nm'
                 (AList.update key
                    (JStr (if normalized \<noteq> [] then join ''; '' normalized
                           else ''Not specified''))
                    record)
                 rest))"

text \<open>
  \<open>process_pdf\<close>. Reading the PDF, the model call and \<open>json.loads\<close> are the parameter
  \<open>extractor\<close>: a path gives a parsed JSON object or the error raised on the way (a
  response that parses to something other than an object fails as well, at the first
  \<open>record.get\<close> or at the assignment of \<open>SourceFile\<close>, before any state changes).
\<close>

definition process_pdf ::
  "(string \<Rightarrow> error + 'a pyrecord) \<Rightarrow> methods \<Rightarrow> normmap \<Rightarrow> string
     \<Rightarrow> (error + 'a pyrecord) \<times> normmap" where
  "process_pdf extractor em nm pdf_path =
     (case extractor pdf_path of
        Inl e \<Rightarrow> (Inl e, nm)
      | Inr record \<Rightarrow> normalize_keys nm record em)"

section \<open>The pandas operations used by \<open>main\<close>\<close>

text \<open>
  \<open>pd.DataFrame(records)\<close> for a list of dictionaries: the columns are the keys in the order
  of their first appearance (\<^const>\<open>remdups\<close> keeps last occurrences, hence the reversals).
\<close>

definition DataFrame :: "'a pyrecord list \<Rightarrow> 'a frame" where
  "DataFrame records =
     \<lparr>columns = rev (remdups (rev (concat (map (map fst) records)))), rows = records\<rparr>"

text \<open>\<open>df.empty\<close>: some axis has length 0.\<close>

definition df_empty :: "'a frame \<Rightarrow> bool" where
  "df_empty df = (rows df = [] \<or> columns df = [])"

text \<open>\<open>df[col]\<close>: the cells of a column, \<open>None\<close> for \<open>NaN\<close>; \<open>KeyError\<close> without the column.\<close>

definition getitem :: "'a frame \<Rightarrow> string \<Rightarrow> error + 'a jval option list" where
  "getitem df col =
     (if col \<in> set (columns df) then Inr (map (\<lambda>r. map_of r col) (rows df))
      else Inl KeyError)"

text \<open>\<open>series.isin(values)\<close>.\<close>

definition isin :: "'b list \<Rightarrow> 'b list \<Rightarrow> bool list" where
  "isin series vals = map (\<lambda>x. x \<in> set vals) series"

text \<open>\<open>df[mask == False]\<close>: the rows where the mask is false.\<close>

definition drop_masked :: "'a frame \<Rightarrow> bool list \<Rightarrow> 'a frame" where
  "drop_masked df flags =
     df\<lparr>rows := map fst (filter (\<lambda>(r, m). m = False) (zip (rows df) flags))\<rparr>"

text \<open>\<open>pd.concat([a, b], ignore_index=True)\<close>: the union of the columns, the rows of \<open>a\<close> then those of \<open>b\<close>.\<close>

definition concat_frames :: "'a frame \<Rightarrow> 'a frame \<Rightarrow> 'a frame" where
  "concat_frames a b =
     \<lparr>columns = columns a @ filter (\<lambda>c. c \<notin> set (columns a)) (columns b),
      rows = rows a @ rows b\<rparr>"

text \<open>
  The characters that the Excel writer (openpyxl) refuses in a string cell: the control
  characters other than tab, line feed and carriage return.
\<close>

definition illegal_character :: "char \<Rightarrow> bool" where
  "illegal_character c =
     (let n = (of_char c :: nat) in n \<le> 8 \<or> n = 11 \<or> n = 12 \<or> (14 \<le> n \<and> n \<le> 31))"

text \<open>
  \<open>df.to_excel(path, index=False)\<close>: the header cells and the cells of every row are written.
  A string with an illegal character raises \<open>IllegalCharacterError\<close>; any other value is
  written as a number or through \<open>str\<close>, whose text has its control characters escaped.
\<close>

definition to_excel :: "'a frame \<Rightarrow> error + 'a frame" where
  "to_excel df =
     (if list_ex (list_ex illegal_character) (columns df)
         \<or> list_ex (list_ex (\<lambda>(k, v). case v of JStr s \<Rightarrow> list_ex illegal_character s
                                                | JOther x \<Rightarrow> False))
              (rows df)
      then Inl IllegalCharacterError
      else Inr df)"

section \<open>\<open>main\<close>\<close>

text \<open>\<open>s.endswith(suffix)\<close>.\<close>

definition endswith :: "string \<Rightarrow> string \<Rightarrow> bool" where
  "endswith s suffix =
     (length suffix \<le> length s \<and> drop (length s - length suffix) s = suffix)"

text \<open>\<open>os.path.join(a, b)\<close> (POSIX).\<close>

definition path_join :: "string \<Rightarrow> string \<Rightarrow> string" where
  "path_join a b =
     (if b \<noteq> [] \<and> hd b = CHR ''/'' then b
      else if a = [] \<or> last a = CHR ''/'' then a @ b
      else a @ ''/'' @ b)"

text \<open>
  Lines 141 to 144, the list of PDF paths. \<open>listing\<close> is \<open>os.listdir(args.input)\<close> when the
  input is a directory, and \<open>None\<close> when it is not.
\<close>

definition pdf_paths :: "string \<Rightarrow> string list option \<Rightarrow> string list" where
  "pdf_paths input listing =
     (case listing of
        Some names \<Rightarrow> map (path_join input) (filter (\<lambda>f. endswith (lower f) ''.pdf'') names)
      | None \<Rightarrow> [input])"

text \<open>Lines 146 to 153: one record per document, or a line on standard error.\<close>

fun main_loop ::
  "(string \<Rightarrow> error + 'a pyrecord) \<Rightarrow> methods
     \<Rightarrow> 'a pyrecord list \<times> (string \<times> error) list \<times> normmap \<Rightarrow> string list
     \<Rightarrow> 'a pyrecord list \<times> (string \<times> error) list \<times> normmap" where
  "main_loop extractor em (new_records, errs, nm) [] = (new_records, errs, nm)"
| "main_loop extractor em (new_records, errs, nm) (pdf # pdfs) =
     (case process_pdf extractor em nm pdf of
        (Inl e, nm') \<Rightarrow> main_loop extractor em (new_records, errs @ [(pdf, e)], nm') pdfs
      | (Inr rec, nm') \<Rightarrow>
          main_loop extractor em
            (new_records @ [AList.update ''SourceFile'' (JStr (basename pdf)) rec], errs, nm')
            pdfs)"

text \<open>Lines 161 to 169: drop the existing rows of the files just processed, then append.\<close>

definition merge :: "'a frame \<Rightarrow> 'a pyrecord list \<Rightarrow> error + 'a frame" where
  "merge df_existing new_records =
     (let df_new = DataFrame new_records in
      if \<not> df_empty df_existing
      then (case getitem df_existing ''SourceFile'' of
              Inl e \<Rightarrow> Inl e
            | Inr existing_ids \<Rightarrow>
                (case getitem df_new ''SourceFile'' of
                   Inl e \<Rightarrow> Inl e
                 | Inr new_ids \<Rightarrow>
                     Inr (concat_frames
                            (drop_masked df_existing (isin existing_ids new_ids)) df_new)))
      else Inr (concat_frames df_existing df_new))"

text \<open>
  \<open>main\<close>, from the list of PDF paths on. \<open>methods_file\<close> and \<open>excel\<close> are the two
  persisted files when they exist. The result is the error lines printed, and then the
  written Excel table and vocabulary file, or the exception that ends the run: that of
  the merge, before anything is written, or that of \<open>to_excel\<close>, before \<open>save_methods\<close>.
\<close>

definition main ::
  "(string \<Rightarrow> error + 'a pyrecord) \<Rightarrow> methods option \<Rightarrow> 'a frame option \<Rightarrow> string list
     \<Rightarrow> (string \<times> error) list \<times> (error + 'a frame \<times> methods)" where
  "main extractor methods_file excel pdfs =
     (let em = enum_methods methods_file;
          (new_records, errs, nm) = main_loop extractor em ([], [], normalize_map em) pdfs;
          df_existing = (case excel of Some df \<Rightarrow> df | None \<Rightarrow> DataFrame [])
      in (errs,
          case merge df_existing new_records of
            Inl e \<Rightarrow> Inl e
          | Inr df_merged \<Rightarrow>
              (case to_excel df_merged of
                 Inl e \<Rightarrow> Inl e
               | Inr written \<Rightarrow> Inr (written, save_methods nm))))"

text \<open>
  The Excel file after the run, from what \<open>main\<close> returned. Line 170 is the only write.
  \<open>IllegalCharacterError\<close> is raised inside \<open>to_excel\<close> and leaves a partly written file;
  the error of the merge (line 166) is raised before the write and leaves the file as
  it was.
\<close>

definition excel_after :: "'a frame option \<Rightarrow> (error + 'a frame \<times> methods) \<Rightarrow> 'a excel_file" where
  "excel_after excel result =
     (case result of
        Inl e \<Rightarrow> if e = IllegalCharacterError then PartlyWritten else File excel
      | Inr (df_merged, saved) \<Rightarrow> File (Some df_merged))"

text \<open>The rows of the Excel file; none when the file does not exist.\<close>

definition table_rows :: "'a frame option \<Rightarrow> 'a pyrecord list" where
  "table_rows excel = (case excel of None \<Rightarrow> [] | Some df \<Rightarrow> rows df)"

section \<open>The specification's wording\<close>

text \<open>
  Section 4.2, one item: a case variant of the sentinel becomes the literal label, any
  other item is kept verbatim.
\<close>

definition spec_item :: "string \<Rightarrow> string" where
  "spec_item it = (if lower it = ''not specified'' then ''Not specified'' else it)"

text \<open>
  Section 4.2, the canonical text of a field: split on \<open>;\<close>, trim each piece, discard the
  empty pieces, map the items, rejoin with \<open>"; "\<close>; \<open>Not specified\<close> when nothing is left.
\<close>

definition spec_canonical :: "string \<Rightarrow> string" where
  "spec_canonical rawText =
     (let pieces = filter (\<lambda>p. p \<noteq> []) (map strip (split CHR '';'' rawText))
      in if pieces = [] then ''Not specified'' else join ''; '' (map spec_item pieces))"

text \<open>
  The same without the mapping of the items: the trimmed non-empty pieces themselves are
  rejoined.
\<close>

definition rejoined_text :: "string \<Rightarrow> string" where
  "rejoined_text rawText =
     (let pieces = filter (\<lambda>p. p \<noteq> []) (map strip (split CHR '';'' rawText))
      in if pieces = [] then ''Not specified'' else join ''; '' pieces)"

text \<open>
  The category fields of a record that normalisation reaches, in the order of the
  categories: all of them, or those before the first field that is not a string.
\<close>

fun fields_seen :: "methods \<Rightarrow> 'a pyrecord \<Rightarrow> (string \<times> string) list" where
  "fields_seen [] record = []"
| "fields_seen ((key, known) # rest) record =
     (case get_field record key of
        JOther x \<Rightarrow> []
      | JStr raw \<Rightarrow> (key, raw) # fields_seen rest record)"

text \<open>The trimmed, non-sentinel items that a list of (category, raw text) fields holds for one category.\<close>

definition observed :: "(string \<times> string) list \<Rightarrow> string \<Rightarrow> string fset" where
  "observed seen key =
     fset_of_list
       (filter (\<lambda>it. lower it \<noteq> ''not specified'')
          (concat (map (\<lambda>(k, raw). if k = key then items raw else []) seen)))"

text \<open>The fields reached during a whole run: those of every document whose extraction gave a record.\<close>

definition run_fields ::
  "(string \<Rightarrow> error + 'a pyrecord) \<Rightarrow> methods \<Rightarrow> string list \<Rightarrow> (string \<times> string) list" where
  "run_fields extractor em pdfs =
     concat (map (\<lambda>pdf. case extractor pdf of Inl e \<Rightarrow> [] | Inr record \<Rightarrow> fields_seen em record) pdfs)"

text \<open>
  Section 8, vocabulary monotonicity between two states of \<open>normalize_map\<close>: the same
  categories in the same order, no label lost, and no empty or sentinel label gained.
\<close>

definition vocabulary_grows :: "normmap \<Rightarrow> normmap \<Rightarrow> bool" where
  "vocabulary_grows nm nm' =
     list_all2
       (\<lambda>(k, l) (k', l'). k' = k \<and> l |\<subseteq>| l'
          \<and> fBall (l' |-| l) (\<lambda>s. s \<noteq> [] \<and> lower s \<noteq> ''not specified''))
       nm nm'"

text \<open>
  The relation between the two globals that line 54 sets up: every category of
  \<open>enum_methods\<close> has a label set in \<open>normalize_map\<close>, and the loaded labels are in it.
\<close>

definition vocabulary_ok :: "methods \<Rightarrow> normmap \<Rightarrow> bool" where
  "vocabulary_ok em nm =
     list_all (\<lambda>(k, known). case map_of nm k of None \<Rightarrow> False | Some l \<Rightarrow> fset_of_list known |\<subseteq>| l) em"

text \<open>
  The item loop with the guard of line 119 removed: every non-sentinel item is added to the
  live label set. It is compared with \<open>normalize_items\<close> below.
\<close>

fun normalize_items_unguarded ::
  "string \<Rightarrow> normmap \<Rightarrow> string list \<Rightarrow> string list \<Rightarrow> (error + string list) \<times> normmap" where
  "normalize_items_unguarded key nm normalized [] = (Inr normalized, nm)"
| "normalize_items_unguarded key nm normalized (it # its) =
     (if lower it = ''not specified''
      then normalize_items_unguarded key nm (normalized @ [''Not specified'']) its
      else (case map_of nm key of
              None \<Rightarrow> (Inl KeyError, nm)
            | Some labels \<Rightarrow>
                normalize_items_unguarded key (AList.update key (finsert it labels) nm)
                  (normalized @ [it]) its))"

text \<open>Every category field of a record is a string (or absent), so its normalisation succeeds.\<close>

definition all_strings :: "methods \<Rightarrow> 'a pyrecord \<Rightarrow> bool" where
  "all_strings em record =
     list_all (\<lambda>(key, known). case get_field record key of JStr raw \<Rightarrow> True | JOther x \<Rightarrow> False) em"

text \<open>
  The fields of the successful record normalisations only: those of the documents whose
  extraction gave a record and whose category fields are all strings.
\<close>

definition successful_fields ::
  "(string \<Rightarrow> error + 'a pyrecord) \<Rightarrow> methods \<Rightarrow> string list \<Rightarrow> (string \<times> string) list" where
  "successful_fields extractor em pdfs =
     concat (map (\<lambda>pdf. case extractor pdf of
                           Inl e \<Rightarrow> []
                         | Inr record \<Rightarrow> if all_strings em record then fields_seen em record else [])
               pdfs)"

section \<open>Lemmas about the normaliser and the vocabulary\<close>

lemma split_not_Nil: "split sep s \<noteq> []"
  by (induction s) (auto split: list.splits)

lemma split_no_sep: "sep \<notin> set x \<Longrightarrow> split sep x = [x]"
  by (induction x) auto

lemma split_append_sep: "sep \<notin> set x \<Longrightarrow> split sep (x @ sep # rest) = x # split sep rest"
  by (induction x) auto

lemma split_pieces_no_sep: "p \<in> set (split sep s) \<Longrightarrow> sep \<notin> set p"
  by (induction s arbitrary: p) (auto split: if_splits list.splits)

lemma normalize_items_result:
  assumes "map_of nm key = Some labels"
  shows "normalize_items key known nm acc its =
     (Inr (acc @ map spec_item its),
      AList.update key
        (labels |\<union>| fset_of_list (filter (\<lambda>it. lower it \<noteq> ''not specified'' \<and> it \<notin> set known) its))
        nm)"
  using assms
proof (induction its arbitrary: nm labels acc)
  case Nil
  then show ?case by (simp add: update_triv)
next
  case (Cons it its)
  show ?case
  proof (cases "lower it = ''not specified''")
    case True
    with Cons show ?thesis by (simp add: spec_item_def)
  next
    case False
    show ?thesis
    proof (cases "it \<in> set known")
      case True
      with False Cons show ?thesis by (simp add: spec_item_def)
    next
      case notin: False
      let ?nm1 = "AList.update key (finsert it labels) nm"
      have m1: "map_of ?nm1 key = Some (finsert it labels)"
        by (simp add: update_conv')
      from Cons.IH [OF m1] False notin Cons.prems show ?thesis
        by (simp add: spec_item_def)
    qed
  qed
qed

lemma items_pieces: "items raw = filter (\<lambda>p. p \<noteq> []) (map strip (split CHR '';'' raw))"
  by (simp add: items_def filter_map comp_def)

lemma field_text_canonical:
  "(if map spec_item (items raw) \<noteq> [] then join ''; '' (map spec_item (items raw)) else ''Not specified'')
     = spec_canonical raw"
  by (simp add: spec_canonical_def items_pieces Let_def)

lemma normalize_items_ok:
  assumes "key \<in> fst ` set nm"
  shows "\<exists>nm'. normalize_items key known nm [] its = (Inr (map spec_item its), nm')
           \<and> fst ` set nm' = fst ` set nm"
proof -
  from assms obtain labels where l: "map_of nm key = Some labels"
    by (meson domD domIff map_of_eq_None_iff)
  show ?thesis
    using normalize_items_result [OF l, of known "[]" its] assms
    by (auto simp: dom_update)
qed

lemma get_field_update_other:
  "k \<noteq> key \<Longrightarrow> get_field (AList.update key v record) k = get_field record k"
  by (simp add: get_field_def update_conv')

lemma normalize_keys_record:
  assumes "distinct (map fst ems)"
    and "fst ` set ems \<subseteq> fst ` set nm"
    and "\<forall>k \<in> fst ` set ems. \<exists>raw. get_field r k = JStr raw"
  shows "\<exists>r' nm'. normalize_keys nm r ems = (Inr r', nm')
           \<and> (\<forall>k. map_of r' k =
                 (if k \<in> fst ` set ems
                  then (case get_field r k of
                          JStr raw \<Rightarrow> Some (JStr (spec_canonical raw)) | JOther x \<Rightarrow> None)
                  else map_of r k))"
  using assms
proof (induction ems arbitrary: nm r)
  case Nil
  then show ?case by simp
next
  case (Cons p rest)
  obtain key known where p: "p = (key, known)" by (cases p)
  from Cons.prems p obtain raw where raw: "get_field r key = JStr raw"
    by auto
  from Cons.prems p have "key \<in> fst ` set nm" by auto
  from normalize_items_ok [OF this, of known "items raw"]
  obtain nm1 where nm1: "normalize_items key known nm [] (items raw) = (Inr (map spec_item (items raw)), nm1)"
    and keys1: "fst ` set nm1 = fst ` set nm" by blast
  let ?r1 = "AList.update key (JStr (spec_canonical raw)) r"
  have step: "normalize_keys nm r (p # rest) = normalize_keys nm1 ?r1 rest"
    using p raw nm1 field_text_canonical [of raw] by simp
  from Cons.prems p have notin: "key \<notin> fst ` set rest" and d: "distinct (map fst rest)"
    by auto
  have sub: "fst ` set rest \<subseteq> fst ` set nm1"
    using Cons.prems keys1 by auto
  have strs: "\<forall>k \<in> fst ` set rest. \<exists>raw. get_field ?r1 k = JStr raw"
  proof
    fix k assume k: "k \<in> fst ` set rest"
    with notin have "k \<noteq> key" by auto
    then have "get_field ?r1 k = get_field r k"
      by (rule get_field_update_other)
    with Cons.prems k show "\<exists>raw. get_field ?r1 k = JStr raw" by auto
  qed
  from Cons.IH [OF d sub strs] obtain r' nm' where
    res: "normalize_keys nm1 ?r1 rest = (Inr r', nm')"
    and fields: "\<forall>k. map_of r' k =
                 (if k \<in> fst ` set rest
                  then (case get_field ?r1 k of
                          JStr raw \<Rightarrow> Some (JStr (spec_canonical raw)) | JOther x \<Rightarrow> None)
                  else map_of ?r1 k)" by blast
  have "\<forall>k. map_of r' k =
                 (if k \<in> fst ` set (p # rest)
                  then (case get_field r k of
                          JStr raw \<Rightarrow> Some (JStr (spec_canonical raw)) | JOther x \<Rightarrow> None)
                  else map_of r k)"
  proof
    fix k
    show "map_of r' k =
                 (if k \<in> fst ` set (p # rest)
                  then (case get_field r k of
                          JStr raw \<Rightarrow> Some (JStr (spec_canonical raw)) | JOther x \<Rightarrow> None)
                  else map_of r k)"
    proof (cases "k = key")
      case True
      with fields notin raw p show ?thesis by (simp add: update_conv')
    next
      case False
      with fields p show ?thesis by (simp add: update_conv' get_field_update_other)
    qed
  qed
  with step res show ?case by simp
qed

lemma vocabulary_grows_refl: "vocabulary_grows nm nm"
  by (simp add: vocabulary_grows_def list_all2_same split_beta)

lemma vocabulary_grows_trans:
  assumes "vocabulary_grows a b" and "vocabulary_grows b c"
  shows "vocabulary_grows a c"
  using assms unfolding vocabulary_grows_def
  by (rule list_all2_trans [rotated]) (auto simp: split_beta)

lemma vocabulary_grows_update:
  assumes "map_of nm key = Some l" and "it \<noteq> []" and "lower it \<noteq> ''not specified''"
  shows "vocabulary_grows nm (AList.update key (finsert it l) nm)"
  using assms(1)
proof (induction nm)
  case Nil
  then show ?case by simp
next
  case (Cons p nm)
  show ?case
  proof (cases "fst p = key")
    case True
    with Cons.prems assms(2,3) vocabulary_grows_refl [of nm] show ?thesis
      by (cases p) (auto simp: vocabulary_grows_def)
  next
    case False
    with Cons show ?thesis
      by (cases p) (auto simp: vocabulary_grows_def)
  qed
qed

lemma vocabulary_grows_keys: "vocabulary_grows nm nm' \<Longrightarrow> map fst nm' = map fst nm"
  unfolding vocabulary_grows_def
  by (induction nm nm' rule: list_all2_induct) auto

lemma items_nonempty: "it \<in> set (items raw) \<Longrightarrow> it \<noteq> []"
  by (auto simp: items_def)

lemma normalize_items_grows:
  assumes "\<forall>it \<in> set its. it \<noteq> []"
  shows "vocabulary_grows nm (snd (normalize_items key known nm acc its))"
  using assms
proof (induction its arbitrary: nm acc)
  case Nil
  then show ?case by (simp add: vocabulary_grows_refl)
next
  case (Cons it its)
  then have rest: "\<And>nm acc. vocabulary_grows nm (snd (normalize_items key known nm acc its))"
    by simp
  show ?case
  proof (cases "lower it \<noteq> ''not specified'' \<and> it \<notin> set known")
    case False
    then show ?thesis using rest by auto
  next
    case True
    show ?thesis
    proof (cases "map_of nm key")
      case None
      with True show ?thesis by (simp add: vocabulary_grows_refl)
    next
      case (Some l)
      from Cons.prems have "it \<noteq> []" by simp
      with Some True have "vocabulary_grows nm (AList.update key (finsert it l) nm)"
        by (simp add: vocabulary_grows_update)
      then show ?thesis
        using True Some rest [of "AList.update key (finsert it l) nm" "acc @ [it]"]
        by (auto intro: vocabulary_grows_trans)
    qed
  qed
qed

lemma normalize_keys_grows: "vocabulary_grows nm (snd (normalize_keys nm r ems))"
proof (induction ems arbitrary: nm r)
  case Nil
  then show ?case by (simp add: vocabulary_grows_refl)
next
  case (Cons p rest)
  obtain key known where p: "p = (key, known)" by (cases p)
  show ?case
  proof (cases "get_field r key")
    case (JOther x)
    with p show ?thesis by (simp add: vocabulary_grows_refl)
  next
    case (JStr raw)
    have g: "vocabulary_grows nm (snd (normalize_items key known nm [] (items raw)))"
      by (rule normalize_items_grows) (simp add: items_nonempty)
    show ?thesis
    proof (cases "normalize_items key known nm [] (items raw)")
      case (Pair res nm1)
      with g have g1: "vocabulary_grows nm nm1" by simp
      show ?thesis
      proof (cases res)
        case (Inl e)
        with p JStr Pair g1 show ?thesis by simp
      next
        case (Inr normalized)
        with p JStr Pair show ?thesis
          using vocabulary_grows_trans [OF g1 Cons.IH] by simp
      qed
    qed
  qed
qed

lemma process_pdf_grows: "vocabulary_grows nm (snd (process_pdf extractor em nm pdf))"
  by (simp add: process_pdf_def vocabulary_grows_refl normalize_keys_grows split: sum.splits)

lemma main_loop_grows:
  "vocabulary_grows nm (snd (snd (main_loop extractor em (recs, errs, nm) pdfs)))"
proof (induction pdfs arbitrary: recs errs nm)
  case Nil
  then show ?case by (simp add: vocabulary_grows_refl)
next
  case (Cons pdf pdfs)
  show ?case
  proof (cases "process_pdf extractor em nm pdf")
    case (Pair res nm1)
    with process_pdf_grows [of nm extractor em pdf] have g1: "vocabulary_grows nm nm1" by simp
    show ?thesis
      using Pair vocabulary_grows_trans [OF g1 Cons.IH]
      by (cases res) simp_all
  qed
qed

lemma observed_Nil: "observed [] k = {||}"
  by (simp add: observed_def)

lemma observed_Cons:
  "observed ((key, raw) # fs) k =
     (if key = k then fset_of_list (filter (\<lambda>it. lower it \<noteq> ''not specified'') (items raw)) else {||})
       |\<union>| observed fs k"
  by (auto simp: observed_def)

lemma observed_append: "observed (xs @ ys) k = observed xs k |\<union>| observed ys k"
  by (simp add: observed_def)

lemma fields_seen_update:
  "key \<notin> fst ` set ems \<Longrightarrow> fields_seen ems (AList.update key v r) = fields_seen ems r"
proof (induction ems)
  case Nil
  then show ?case by simp
next
  case (Cons p ems)
  then show ?case
    by (cases p) (auto simp: get_field_update_other split: jval.splits)
qed

lemma known_absorbed:
  assumes "fset_of_list known |\<subseteq>| l"
  shows "l |\<union>| fset_of_list (filter (\<lambda>it. lower it \<noteq> ''not specified'' \<and> it \<notin> set known) its)
       = l |\<union>| fset_of_list (filter (\<lambda>it. lower it \<noteq> ''not specified'') its)"
  using assms by (auto simp: fset_of_list.rep_eq)

lemma normalize_keys_vocabulary:
  assumes "distinct (map fst ems)" and "vocabulary_ok ems nm"
  shows "map_of (snd (normalize_keys nm r ems)) k =
           map_option (\<lambda>l. l |\<union>| observed (fields_seen ems r) k) (map_of nm k)"
  using assms
proof (induction ems arbitrary: nm r)
  case Nil
  then show ?case by (simp add: observed_Nil option.map_ident)
next
  case (Cons p rest)
  obtain key known where p: "p = (key, known)" by (cases p)
  show ?case
  proof (cases "get_field r key")
    case (JOther x)
    with p show ?thesis by (simp add: observed_Nil option.map_ident)
  next
    case (JStr raw)
    from Cons.prems p obtain l where l: "map_of nm key = Some l" and kl: "fset_of_list known |\<subseteq>| l"
      by (auto simp: vocabulary_ok_def split: option.splits)
    let ?new = "fset_of_list (filter (\<lambda>it. lower it \<noteq> ''not specified'') (items raw))"
    let ?nm1 = "AList.update key (l |\<union>| ?new) nm"
    let ?r1 = "AList.update key (JStr (spec_canonical raw)) r"
    have items: "normalize_items key known nm [] (items raw) = (Inr (map spec_item (items raw)), ?nm1)"
      using normalize_items_result [OF l, of known "[]" "items raw"] known_absorbed [OF kl]
      by simp
    have step: "normalize_keys nm r (p # rest) = normalize_keys ?nm1 ?r1 rest"
      using p JStr items field_text_canonical [of raw] by simp
    from Cons.prems p have notin: "key \<notin> fst ` set rest" and d: "distinct (map fst rest)"
      by auto
    have other: "\<And>k' known'. (k', known') \<in> set rest \<Longrightarrow> k' \<noteq> key"
      using notin by force
    have ok1: "vocabulary_ok rest ?nm1"
      unfolding vocabulary_ok_def list_all_iff
    proof clarify
      fix k' known' assume mem: "(k', known') \<in> set rest"
      with other have ne: "k' \<noteq> key" by blast
      from Cons.prems p mem obtain l' where "map_of nm k' = Some l'" "fset_of_list known' |\<subseteq>| l'"
        by (fastforce simp: vocabulary_ok_def list_all_iff split: option.splits)
      with ne show "case map_of ?nm1 k' of None \<Rightarrow> False | Some l \<Rightarrow> fset_of_list known' |\<subseteq>| l"
        by (simp add: update_conv')
    qed
    have seen: "fields_seen (p # rest) r = (key, raw) # fields_seen rest ?r1"
      using p JStr notin by (simp add: fields_seen_update)
    show ?thesis
      unfolding step seen Cons.IH [OF d ok1] observed_Cons
      using l by (auto simp: update_conv' map_option_case split: option.splits)
  qed
qed

lemma vocabulary_ok_grows:
  assumes "vocabulary_ok em nm" and "vocabulary_grows nm nm'"
  shows "vocabulary_ok em nm'"
proof -
  have "\<And>k l. map_of nm k = Some l \<Longrightarrow> \<exists>l'. map_of nm' k = Some l' \<and> l |\<subseteq>| l'"
    using assms(2) unfolding vocabulary_grows_def
  proof (induction nm nm' rule: list_all2_induct)
    case Nil
    then show ?case by simp
  next
    case (Cons x xs y ys)
    then show ?case by (cases x; cases y) (auto split: if_splits)
  qed
  with assms(1) show ?thesis
    unfolding vocabulary_ok_def list_all_iff
    by (fastforce split: option.splits)
qed

lemma vocabulary_ok_init: "distinct (map fst em) \<Longrightarrow> vocabulary_ok em (normalize_map em)"
proof -
  assume d: "distinct (map fst em)"
  have "\<And>k known. (k, known) \<in> set em \<Longrightarrow> map_of (normalize_map em) k = Some (fset_of_list known)"
  proof -
    fix k known assume "(k, known) \<in> set em"
    with d have "map_of em k = Some known" by simp
    then show "map_of (normalize_map em) k = Some (fset_of_list known)"
      by (simp add: normalize_map_def map_of_map)
  qed
  then show ?thesis
    by (auto simp: vocabulary_ok_def list_all_iff)
qed

lemma process_pdf_vocabulary:
  assumes "distinct (map fst em)" and "vocabulary_ok em nm"
  shows "map_of (snd (process_pdf extractor em nm pdf)) k =
           map_option (\<lambda>l. l |\<union>| observed (run_fields extractor em [pdf]) k) (map_of nm k)"
  by (simp add: process_pdf_def run_fields_def observed_Nil option.map_ident
        normalize_keys_vocabulary [OF assms] split: sum.splits)

lemma run_fields_Cons:
  "run_fields extractor em (pdf # pdfs) = run_fields extractor em [pdf] @ run_fields extractor em pdfs"
  by (simp add: run_fields_def)

lemma main_loop_vocabulary:
  assumes "distinct (map fst em)" and "vocabulary_ok em nm"
  shows "map_of (snd (snd (main_loop extractor em (recs, errs, nm) pdfs))) k =
           map_option (\<lambda>l. l |\<union>| observed (run_fields extractor em pdfs) k) (map_of nm k)"
  using assms(2)
proof (induction pdfs arbitrary: recs errs nm)
  case Nil
  then show ?case by (simp add: run_fields_def observed_Nil option.map_ident)
next
  case (Cons pdf pdfs)
  show ?case
  proof (cases "process_pdf extractor em nm pdf")
    case (Pair res nm1)
    have ok1: "vocabulary_ok em nm1"
      using vocabulary_ok_grows [OF Cons.prems process_pdf_grows [of nm extractor em pdf]] Pair
      by simp
    have v1: "map_of nm1 k = map_option (\<lambda>l. l |\<union>| observed (run_fields extractor em [pdf]) k) (map_of nm k)"
      using process_pdf_vocabulary [OF assms(1) Cons.prems, of extractor pdf k] Pair by simp
    show ?thesis
      using Pair Cons.IH [OF ok1] v1
      by (cases res)
         (simp_all add: run_fields_Cons [of extractor em pdf pdfs] observed_append
            option.map_comp comp_def funion_assoc)
  qed
qed

lemma vocabulary_grows_lookup:
  assumes "vocabulary_grows nm nm'" and "map_of nm k = Some l"
  shows "\<exists>l'. map_of nm' k = Some l' \<and> l |\<subseteq>| l'
           \<and> (\<forall>s. s |\<in>| l' \<longrightarrow> s |\<notin>| l \<longrightarrow> s \<noteq> [] \<and> lower s \<noteq> ''not specified'')"
  using assms unfolding vocabulary_grows_def
proof (induction nm nm' rule: list_all2_induct)
  case Nil
  then show ?case by simp
next
  case (Cons x xs y ys)
  then show ?case by (cases x; cases y) (auto split: if_splits)
qed

section \<open>Lemmas about the canonical text\<close>

lemma strip_Nil: "strip [] = []"
  by (simp add: strip_def)

lemma strip_subset: "set (strip s) \<subseteq> set s"
proof
  fix c assume "c \<in> set (strip s)"
  then have "c \<in> set (dropWhile isspace (rev (dropWhile isspace s)))"
    by (simp add: strip_def)
  then have "c \<in> set (rev (dropWhile isspace s))"
    by (rule set_dropWhileD)
  then have "c \<in> set (dropWhile isspace s)" by simp
  then show "c \<in> set s" by (rule set_dropWhileD)
qed

lemma strip_space_Cons: "isspace c \<Longrightarrow> strip (c # s) = strip s"
  by (simp add: strip_def)

lemma strip_fixed:
  assumes "s \<noteq> []" and "\<not> isspace (hd s)" and "\<not> isspace (last s)"
  shows "strip s = s"
proof -
  from assms(1,2) have a: "dropWhile isspace s = s"
    by (cases s) auto
  from assms(1,3) have b: "dropWhile isspace (rev s) = rev s"
    by (cases "rev s") (auto simp: last_rev [symmetric] simp del: last_rev)
  show ?thesis by (simp add: strip_def a b)
qed

lemma strip_ends:
  assumes "strip s \<noteq> []"
  shows "\<not> isspace (hd (strip s)) \<and> \<not> isspace (last (strip s))"
proof -
  let ?t = "dropWhile isspace s"
  let ?d = "dropWhile isspace (rev ?t)"
  from assms have d: "?d \<noteq> []" by (simp add: strip_def)
  then have hd_d: "\<not> isspace (hd ?d)" by (rule hd_dropWhile)
  have last: "last (strip s) = hd ?d"
    using d by (simp add: strip_def last_rev)
  from d have "rev ?t \<noteq> []" by (metis dropWhile.simps(1))
  then have t: "?t \<noteq> []" by simp
  then have hd_t: "\<not> isspace (hd ?t)" by (rule hd_dropWhile)
  have "rev ?t = takeWhile isspace (rev ?t) @ ?d" by simp
  then have "?t = rev ?d @ rev (takeWhile isspace (rev ?t))"
    by (metis rev_append rev_rev_ident)
  then have "hd ?t = hd (rev ?d)"
    using d by (metis hd_append2 rev_is_Nil_conv)
  with hd_t have "\<not> isspace (hd (strip s))" by (simp add: strip_def)
  with last hd_d show ?thesis by simp
qed

lemma strip_idem: "strip (strip s) = strip s"
proof (cases "strip s = []")
  case True
  then show ?thesis by (simp add: strip_Nil)
next
  case False
  with strip_ends [OF False] show ?thesis by (simp add: strip_fixed)
qed

lemma split_space_Cons:
  "c \<noteq> sep \<Longrightarrow> split sep (c # s) = (c # hd (split sep s)) # tl (split sep s)"
  using split_not_Nil [of sep s] by (cases "split sep s") auto

lemma split_join:
  assumes "xs \<noteq> []" and "\<forall>x \<in> set xs. CHR '';'' \<notin> set x"
  shows "split CHR '';'' (join ''; '' xs) = hd xs # map (\<lambda>x. CHR '' '' # x) (tl xs)"
  using assms
proof (induction "''; ''" xs rule: join.induct)
  case 1
  then show ?case by simp
next
  case (2 x)
  then show ?case by (simp add: split_no_sep)
next
  case (3 x y ys)
  then have ih: "split CHR '';'' (join ''; '' (y # ys)) = y # map (\<lambda>x. CHR '' '' # x) ys"
    by simp
  have "join ''; '' (x # y # ys) = x @ CHR '';'' # (CHR '' '' # join ''; '' (y # ys))"
    by simp
  moreover from 3(3) have "CHR '';'' \<notin> set x" by simp
  ultimately have "split CHR '';'' (join ''; '' (x # y # ys)) = x # split CHR '';'' (CHR '' '' # join ''; '' (y # ys))"
    using split_append_sep [of "CHR '';''" x "CHR '' '' # join ''; '' (y # ys)"] by simp
  then show ?case
    using ih by (simp add: split_space_Cons del: split.simps join.simps)
qed

lemma lower_sentinel: "lower ''Not specified'' = ''not specified''"
  by code_simp

lemma strip_sentinel: "strip ''Not specified'' = ''Not specified''"
  by (simp add: strip_def isspace_def)

lemma spec_canonical_items:
  "spec_canonical raw =
     (if items raw = [] then ''Not specified'' else join ''; '' (map spec_item (items raw)))"
  using field_text_canonical [of raw] by (cases "items raw = []") simp_all

lemma items_single:
  assumes "it \<noteq> []" and "strip it = it" and "CHR '';'' \<notin> set it"
  shows "items it = [it]"
  using assms by (simp add: items_def split_no_sep)

lemma items_join:
  assumes "xs \<noteq> []" and "\<forall>x \<in> set xs. x \<noteq> [] \<and> strip x = x \<and> CHR '';'' \<notin> set x"
  shows "items (join ''; '' xs) = xs"
proof -
  have sp: "isspace CHR '' ''" by (simp add: isspace_def)
  from assms have split: "split CHR '';'' (join ''; '' xs) = hd xs # map (\<lambda>x. CHR '' '' # x) (tl xs)"
    by (simp add: split_join)
  have tl: "\<forall>x \<in> set (tl xs). strip (CHR '' '' # x) = x \<and> x \<noteq> []"
    using assms(2) sp by (auto simp: strip_space_Cons dest: list.set_sel(2) [OF assms(1)])
  have hd: "strip (hd xs) = hd xs \<and> hd xs \<noteq> []"
    using assms by simp
  have "filter (\<lambda>i. strip i \<noteq> []) (map (\<lambda>x. CHR '' '' # x) (tl xs)) = map (\<lambda>x. CHR '' '' # x) (tl xs)"
    using tl by (simp add: filter_id_conv)
  moreover have "map strip (map (\<lambda>x. CHR '' '' # x) (tl xs)) = tl xs"
    using tl by (simp add: map_idI)
  ultimately show ?thesis
    using hd assms(1) by (simp add: items_def split)
qed

lemma spec_item_canonical:
  assumes "p \<in> set (items raw)"
  shows "spec_item p \<noteq> [] \<and> strip (spec_item p) = spec_item p
       \<and> CHR '';'' \<notin> set (spec_item p) \<and> spec_item (spec_item p) = spec_item p"
proof (cases "lower p = ''not specified''")
  case True
  then show ?thesis
    by (simp add: spec_item_def lower_sentinel strip_sentinel)
next
  case False
  from assms obtain q where q: "q \<in> set (split CHR '';'' raw)" and p: "p = strip q" and ne: "p \<noteq> []"
    by (auto simp: items_def)
  from q have "CHR '';'' \<notin> set q" by (rule split_pieces_no_sep)
  with strip_subset [of q] p have "CHR '';'' \<notin> set p" by auto
  with False p ne show ?thesis
    by (simp add: spec_item_def strip_idem)
qed

lemma spec_canonical_idem: "spec_canonical (spec_canonical raw) = spec_canonical raw"
proof (cases "items raw = []")
  case True
  have "items ''Not specified'' = [''Not specified'']"
    by (rule items_single) (simp_all add: strip_sentinel)
  with True show ?thesis
    by (simp add: spec_canonical_items spec_item_def lower_sentinel)
next
  case False
  let ?xs = "map spec_item (items raw)"
  have canon: "\<forall>x \<in> set ?xs. x \<noteq> [] \<and> strip x = x \<and> CHR '';'' \<notin> set x"
    using spec_item_canonical [of _ raw] by auto
  from False have ne: "?xs \<noteq> []" by simp
  have it: "items (join ''; '' ?xs) = ?xs"
    using items_join [OF ne canon] .
  have idm: "map spec_item ?xs = ?xs"
    by (rule map_idI) (use spec_item_canonical [of _ raw] in auto)
  have first: "spec_canonical raw = join ''; '' ?xs"
    using False by (simp add: spec_canonical_items)
  have "spec_canonical (join ''; '' ?xs) = join ''; '' (map spec_item (items (join ''; '' ?xs)))"
    using ne it by (simp only: spec_canonical_items if_False)
  also have "\<dots> = join ''; '' ?xs"
    by (simp only: it idm)
  finally show ?thesis
    by (simp only: first)
qed

lemma spec_canonical_single:
  assumes "it \<noteq> []" and "strip it = it" and "CHR '';'' \<notin> set it" and "lower it \<noteq> ''not specified''"
  shows "spec_canonical it = it"
  using items_single [OF assms(1-3)] assms(4)
  by (simp add: spec_canonical_items spec_item_def)

lemma spec_canonical_sentinel: "spec_canonical ''Not specified'' = ''Not specified''"
proof -
  have "items ''Not specified'' = [''Not specified'']"
    by (rule items_single) (simp_all add: strip_sentinel)
  then show ?thesis
    by (simp add: spec_canonical_items spec_item_def lower_sentinel)
qed

section \<open>Lemmas about whole records and the saved vocabulary\<close>

lemma normalize_keys_fixed:
  assumes "fst ` set ems \<subseteq> fst ` set nm"
    and "\<forall>k \<in> fst ` set ems. \<exists>t. map_of r k = Some (JStr t) \<and> spec_canonical t = t"
  shows "\<exists>nm'. normalize_keys nm r ems = (Inr r, nm')"
  using assms
proof (induction ems arbitrary: nm)
  case Nil
  then show ?case by simp
next
  case (Cons p rest)
  obtain key known where p: "p = (key, known)" by (cases p)
  from Cons.prems p obtain t where t: "map_of r key = Some (JStr t)" and c: "spec_canonical t = t"
    by auto
  from Cons.prems p have "key \<in> fst ` set nm" by auto
  from normalize_items_ok [OF this, of known "items t"]
  obtain nm1 where nm1: "normalize_items key known nm [] (items t) = (Inr (map spec_item (items t)), nm1)"
    and keys1: "fst ` set nm1 = fst ` set nm" by blast
  have upd: "AList.update key (JStr t) r = r"
    using t by (rule update_triv)
  have step: "normalize_keys nm r (p # rest) = normalize_keys nm1 r rest"
    using p t nm1 field_text_canonical [of t] c upd by (simp add: get_field_def)
  have "fst ` set rest \<subseteq> fst ` set nm1"
    using Cons.prems keys1 by auto
  moreover have "\<forall>k \<in> fst ` set rest. \<exists>t. map_of r k = Some (JStr t) \<and> spec_canonical t = t"
    using Cons.prems by auto
  ultimately show ?case
    using Cons.IH step by simp
qed

lemma normalize_keys_success_strings:
  assumes "normalize_keys nm r ems = (Inr r', nm')"
  shows "\<forall>k \<in> fst ` set ems. \<exists>raw. get_field r k = JStr raw"
  using assms
proof (induction ems arbitrary: nm r)
  case Nil
  then show ?case by simp
next
  case (Cons p rest)
  obtain key known where p: "p = (key, known)" by (cases p)
  from Cons.prems p obtain raw where raw: "get_field r key = JStr raw"
    by (cases "get_field r key") auto
  obtain res nm1 where it: "normalize_items key known nm [] (items raw) = (res, nm1)"
    by (cases "normalize_items key known nm [] (items raw)")
  from Cons.prems p raw it obtain normalized where res: "res = Inr normalized"
    by (cases res) auto
  let ?r1 = "AList.update key (JStr (if normalized \<noteq> [] then join ''; '' normalized else ''Not specified'')) r"
  from Cons.prems p raw it res have rest: "normalize_keys nm1 ?r1 rest = (Inr r', nm')"
    by simp
  from Cons.IH [OF rest] have ih: "\<forall>k \<in> fst ` set rest. \<exists>raw. get_field ?r1 k = JStr raw" .
  show ?case
  proof
    fix k assume k: "k \<in> fst ` set (p # rest)"
    show "\<exists>raw. get_field r k = JStr raw"
    proof (cases "k = key")
      case True
      with raw show ?thesis by simp
    next
      case False
      with k p have "k \<in> fst ` set rest" by auto
      with ih obtain raw' where "get_field ?r1 k = JStr raw'" by blast
      with False show ?thesis by (simp add: get_field_update_other)
    qed
  qed
qed

lemma guard_equivalent:
  assumes "map_of nm key = Some labels" and "fset_of_list known |\<subseteq>| labels"
  shows "normalize_items key known nm normalized its = normalize_items_unguarded key nm normalized its"
  using assms
proof (induction its arbitrary: nm labels normalized)
  case Nil
  then show ?case by simp
next
  case (Cons it its)
  show ?case
  proof (cases "lower it = ''not specified''")
    case True
    with Cons show ?thesis by simp
  next
    case False
    let ?nm1 = "AList.update key (finsert it labels) nm"
    have m1: "map_of ?nm1 key = Some (finsert it labels)"
      by (simp add: update_conv')
    have s1: "fset_of_list known |\<subseteq>| finsert it labels"
      using Cons.prems(2) by auto
    show ?thesis
    proof (cases "it \<in> set known")
      case True
      with Cons.prems(2) have "it |\<in>| labels"
        by (auto simp: fset_of_list.rep_eq)
      then have "finsert it labels = labels" by auto
      then have "?nm1 = nm"
        using Cons.prems(1) by (simp add: update_triv)
      with False True Cons.prems Cons.IH [OF Cons.prems] show ?thesis by simp
    next
      case notin: False
      with False Cons.prems(1) Cons.IH [OF m1 s1] show ?thesis by simp
    qed
  qed
qed

lemma map_of_save_methods:
  "map_of (save_methods nm) k = map_option sorted_list_of_fset (map_of nm k)"
  by (induction nm) (auto simp: save_methods_def)

lemma map_of_normalize_map:
  "map_of (normalize_map em) k = map_option fset_of_list (map_of em k)"
  by (induction em) (auto simp: normalize_map_def)

lemma run_fields_successful:
  assumes "\<forall>pdf \<in> set pdfs. \<forall>r. extractor pdf = Inr r \<longrightarrow> all_strings em r"
  shows "run_fields extractor em pdfs = successful_fields extractor em pdfs"
  using assms
  by (induction pdfs) (auto simp: run_fields_def successful_fields_def split: sum.splits)

section \<open>Lemmas about the table merge\<close>

lemma drop_masked_rows:
  "rows (drop_masked df (isin (map g (rows df)) vals)) = filter (\<lambda>r. g r \<notin> set vals) (rows df)"
proof -
  have "map fst (filter (\<lambda>(r, m). m = False) (zip xs (map (\<lambda>x. x \<in> set vals) (map g xs))))
          = filter (\<lambda>r. g r \<notin> set vals) xs" for xs
    by (induction xs) auto
  then show ?thesis by (simp add: drop_masked_def isin_def)
qed

lemma DataFrame_has_column:
  "col \<in> set (columns (DataFrame records)) \<longleftrightarrow> (\<exists>r \<in> set records. map_of r col \<noteq> None)"
  by (auto simp: DataFrame_def map_of_eq_None_iff)

lemma merge_rows:
  assumes "\<exists>r \<in> set new_records. map_of r ''SourceFile'' \<noteq> None"
    and "rows df_existing \<noteq> [] \<longrightarrow> ''SourceFile'' \<in> set (columns df_existing)"
  shows "\<exists>df_merged. merge df_existing new_records = Inr df_merged
           \<and> rows df_merged =
               filter (\<lambda>r. map_of r ''SourceFile'' \<notin> set (map (\<lambda>n. map_of n ''SourceFile'') new_records))
                 (rows df_existing) @ new_records"
proof (cases "rows df_existing = []")
  case True
  then show ?thesis
    by (simp add: merge_def df_empty_def concat_frames_def DataFrame_def Let_def)
next
  case False
  with assms(2) have col: "''SourceFile'' \<in> set (columns df_existing)" by simp
  then have ne: "\<not> df_empty df_existing"
    using False by (auto simp: df_empty_def)
  from assms(1) have new_col: "''SourceFile'' \<in> set (columns (DataFrame new_records))"
    by (simp add: DataFrame_has_column)
  have new_rows: "rows (DataFrame new_records) = new_records"
    by (simp add: DataFrame_def)
  show ?thesis
    using ne col new_col
      drop_masked_rows [of df_existing "\<lambda>r. map_of r ''SourceFile''"
        "map (\<lambda>n. map_of n ''SourceFile'') new_records"]
    by (simp add: merge_def getitem_def concat_frames_def Let_def new_rows)
qed

lemma merge_empty_batch_empty_existing:
  "df_empty df \<Longrightarrow> merge df [] = Inr df"
  by (simp add: merge_def DataFrame_def concat_frames_def)

lemma merge_empty_batch_rows: "merge df [] = Inr df_merged \<Longrightarrow> rows df_merged = rows df"
  by (auto simp: merge_def DataFrame_def getitem_def concat_frames_def Let_def
        split: if_splits sum.splits)

lemma merge_empty_batch_nonempty_existing:
  "\<not> df_empty df \<Longrightarrow> merge df [] = Inl KeyError"
  by (auto simp: merge_def DataFrame_def getitem_def Let_def split: sum.splits)

section \<open>Lemmas about the whole run\<close>

lemma basename_plain:
  assumes "CHR ''/'' \<notin> set f"
  shows "basename f = f"
proof -
  have tw: "takeWhile (\<lambda>c. c \<noteq> CHR ''/'') (rev f) = rev f"
    using assms by (auto simp: takeWhile_eq_all_conv)
  show ?thesis unfolding basename_def tw by simp
qed

lemma basename_no_slash:
  assumes "CHR ''/'' \<notin> set f"
  shows "basename (p @ CHR ''/'' # f) = f"
proof -
  have tw: "takeWhile (\<lambda>c. c \<noteq> CHR ''/'') (rev f @ CHR ''/'' # rev p) = rev f"
    using assms by (auto simp: takeWhile_tail)
  have "rev (p @ CHR ''/'' # f) = rev f @ CHR ''/'' # rev p" by simp
  then show ?thesis unfolding basename_def tw by (simp only: tw rev_rev_ident)
qed

lemma basename_path_join:
  assumes "CHR ''/'' \<notin> set f"
  shows "basename (path_join a f) = f"
proof (cases "a = []")
  case True
  have "path_join a f = f"
    unfolding path_join_def using True assms by (cases f) auto
  with assms show ?thesis by (simp add: basename_plain)
next
  case False
  have hd: "(f \<noteq> [] \<and> hd f = CHR ''/'') = False"
    using assms by (cases f) auto
  show ?thesis
  proof (cases "last a = CHR ''/''")
    case True
    with False have "a = butlast a @ [CHR ''/'']"
      by (metis append_butlast_last_id)
    then have "a @ f = (butlast a @ [CHR ''/'']) @ f"
      by simp
    then have eq: "a @ f = butlast a @ CHR ''/'' # f"
      by simp
    have "basename (a @ f) = f"
      unfolding eq by (rule basename_no_slash [OF assms])
    moreover have "path_join a f = a @ f"
      unfolding path_join_def hd using True by simp
    ultimately show ?thesis by simp
  next
    case nl: False
    have "path_join a f = a @ CHR ''/'' # f"
      unfolding path_join_def hd using False nl by simp
    with basename_no_slash [OF assms, of a] show ?thesis by simp
  qed
qed

lemma pdf_paths_distinct:
  assumes "case listing of None \<Rightarrow> True
           | Some names \<Rightarrow> distinct names \<and> (\<forall>f \<in> set names. CHR ''/'' \<notin> set f)"
  shows "distinct (map basename (pdf_paths input listing))"
proof (cases listing)
  case None
  then show ?thesis by (simp add: pdf_paths_def)
next
  case (Some names)
  let ?fs = "filter (\<lambda>f. endswith (lower f) ''.pdf'') names"
  from assms Some have d: "distinct names" and s: "\<forall>f \<in> set names. CHR ''/'' \<notin> set f"
    by simp_all
  have "map basename (map (path_join input) ?fs) = ?fs"
    using s by (intro map_idI [THEN trans [OF map_map]]) (simp add: basename_path_join)
  with d Some show ?thesis by (simp add: pdf_paths_def)
qed

lemma normalize_keys_outcome:
  assumes "fst ` set ems \<subseteq> fst ` set nm" and "fst ` set ems \<subseteq> fst ` set nm2"
  shows "fst (normalize_keys nm r ems) = fst (normalize_keys nm2 r ems)"
  using assms
proof (induction ems arbitrary: nm nm2 r)
  case Nil
  then show ?case by simp
next
  case (Cons p rest)
  obtain key known where p: "p = (key, known)" by (cases p)
  show ?case
  proof (cases "get_field r key")
    case (JOther x)
    with p show ?thesis by simp
  next
    case (JStr raw)
    from Cons.prems p have k1: "key \<in> fst ` set nm" and k2: "key \<in> fst ` set nm2" by auto
    from normalize_items_ok [OF k1, of known "items raw"] obtain nm1 where
      a: "normalize_items key known nm [] (items raw) = (Inr (map spec_item (items raw)), nm1)"
      and ka: "fst ` set nm1 = fst ` set nm" by blast
    from normalize_items_ok [OF k2, of known "items raw"] obtain nm3 where
      b: "normalize_items key known nm2 [] (items raw) = (Inr (map spec_item (items raw)), nm3)"
      and kb: "fst ` set nm3 = fst ` set nm2" by blast
    have "fst ` set rest \<subseteq> fst ` set nm1" "fst ` set rest \<subseteq> fst ` set nm3"
      using Cons.prems ka kb by auto
    from Cons.IH [OF this] show ?thesis
      using p JStr a b by simp
  qed
qed

lemma process_pdf_outcome:
  assumes "fst ` set em \<subseteq> fst ` set nm" and "fst ` set em \<subseteq> fst ` set nm2"
  shows "fst (process_pdf extractor em nm pdf) = fst (process_pdf extractor em nm2 pdf)"
  by (simp add: process_pdf_def normalize_keys_outcome [OF assms] split: sum.splits)

lemma process_pdf_keys: "fst ` set (snd (process_pdf extractor em nm pdf)) = fst ` set nm"
proof -
  have "map fst (snd (process_pdf extractor em nm pdf)) = map fst nm"
    using process_pdf_grows by (rule vocabulary_grows_keys)
  then have "set (map fst (snd (process_pdf extractor em nm pdf))) = set (map fst nm)"
    by simp
  then show ?thesis by simp
qed

lemma main_loop_records:
  assumes "fst ` set em \<subseteq> fst ` set nm0" and "fst ` set em \<subseteq> fst ` set nm"
  shows "\<exists>nm'. main_loop extractor em (recs, errs, nm) pdfs =
     (recs @ concat (map (\<lambda>pdf. case fst (process_pdf extractor em nm0 pdf) of
                                   Inl e \<Rightarrow> []
                                 | Inr n \<Rightarrow> [AList.update ''SourceFile'' (JStr (basename pdf)) n]) pdfs),
      errs @ concat (map (\<lambda>pdf. case fst (process_pdf extractor em nm0 pdf) of
                                   Inl e \<Rightarrow> [(pdf, e)]
                                 | Inr n \<Rightarrow> []) pdfs),
      nm')"
  using assms(2)
proof (induction pdfs arbitrary: recs errs nm)
  case Nil
  then show ?case by simp
next
  case (Cons pdf pdfs)
  obtain res nm1 where step: "process_pdf extractor em nm pdf = (res, nm1)"
    by (cases "process_pdf extractor em nm pdf")
  have "fst ` set nm1 = fst ` set nm"
    using process_pdf_keys [of extractor em nm pdf] step by simp
  with Cons.prems have k1: "fst ` set em \<subseteq> fst ` set nm1" by simp
  have out: "fst (process_pdf extractor em nm0 pdf) = res"
    using process_pdf_outcome [OF assms(1) Cons.prems, of extractor pdf] step by simp
  show ?case
  proof (cases res)
    case (Inl e)
    from Cons.IH [OF k1, of recs "errs @ [(pdf, e)]"] show ?thesis
      using step Inl out by simp
  next
    case (Inr n)
    from Cons.IH [OF k1, of "recs @ [AList.update ''SourceFile'' (JStr (basename pdf)) n]" errs] show ?thesis
      using step Inr out by simp
  qed
qed

lemma normalize_map_keys: "fst ` set (normalize_map em) = fst ` set em"
  by (force simp: normalize_map_def)

lemma filter_kept:
  "v \<notin> S \<Longrightarrow> filter (\<lambda>r. f r = v) (filter (\<lambda>r. f r \<notin> S) xs) = filter (\<lambda>r. f r = v) xs"
  by (induction xs) auto

lemma all_documents_fail_raises:
  "main (\<lambda>p. Inl RuntimeError) None
        (Some \<lparr>columns = [''SourceFile'', ''Clustering''],
               rows = [[(''SourceFile'', JStr ''x.pdf''), (''Clustering'', JStr ''LDA'' :: unit jval)]]\<rparr>)
        [''in/x.pdf'']
     = ([(''in/x.pdf'', RuntimeError)], Inl KeyError)"
  by code_simp

lemma failure_isolation_run:
  "main (\<lambda>p. if p = ''in/x.pdf'' then Inl ValueError else Inr [(''Clustering'', JStr ''LDA'' :: unit jval)])
      None
      (Some \<lparr>columns = [''SourceFile'', ''Clustering''],
             rows = [[(''SourceFile'', JStr ''x.pdf''), (''Clustering'', JStr ''CorEx'')],
                     [(''SourceFile'', JStr ''a.pdf''), (''Clustering'', JStr ''DTM'')]]\<rparr>)
      [''in/a.pdf'', ''in/x.pdf'', ''in/c.pdf'']
   = ([(''in/x.pdf'', ValueError)],
      Inr (\<lparr>columns = [''SourceFile'', ''Clustering'', ''AnalyzedFields'', ''TermPreprocessing'', ''ClusterAnalysis''],
            rows = [[(''SourceFile'', JStr ''x.pdf''), (''Clustering'', JStr ''CorEx'')],
                    [(''Clustering'', JStr ''LDA''), (''AnalyzedFields'', JStr ''Not specified''),
                     (''TermPreprocessing'', JStr ''Not specified''), (''ClusterAnalysis'', JStr ''Not specified''),
                     (''SourceFile'', JStr ''a.pdf'')],
                    [(''Clustering'', JStr ''LDA''), (''AnalyzedFields'', JStr ''Not specified''),
                     (''TermPreprocessing'', JStr ''Not specified''), (''ClusterAnalysis'', JStr ''Not specified''),
                     (''SourceFile'', JStr ''c.pdf'')]]\<rparr>,
           [(''AnalyzedFields'', []), (''TermPreprocessing'', []), (''Clustering'', [''LDA'']),
            (''ClusterAnalysis'', [])]))"
  by code_simp

section \<open>The claims\<close>

text \<open>
  C1. For a non-empty batch of new records, each carrying its source-file identifier, and
  an existing dataset that has the identifier column when it has rows, \<open>merge\<close> succeeds;
  its rows are the existing rows whose identifier is not among the new records'
  identifiers, in their order, followed by the new records in their order. For existing
  identifiers A and B and one new record for A, the result is B's row followed by the new
  record.
\<close>

theorem merge_replaces_rows:
  assumes "new_records \<noteq> []"
    and "\<forall>n \<in> set new_records. map_of n ''SourceFile'' \<noteq> None"
    and "rows df_existing \<noteq> [] \<longrightarrow> ''SourceFile'' \<in> set (columns df_existing)"
  shows "\<exists>df_merged. merge df_existing new_records = Inr df_merged
           \<and> rows df_merged =
               filter (\<lambda>r. map_of r ''SourceFile'' \<notin> set (map (\<lambda>n. map_of n ''SourceFile'') new_records))
                 (rows df_existing) @ new_records
           \<and> (\<forall>row_a row_b new_a id_a id_b.
                 rows df_existing = [row_a, row_b] \<and> new_records = [new_a]
                 \<and> map_of row_a ''SourceFile'' = Some id_a \<and> map_of row_b ''SourceFile'' = Some id_b
                 \<and> id_a \<noteq> id_b \<and> map_of new_a ''SourceFile'' = Some id_a
                 \<longrightarrow> rows df_merged = [row_b, new_a])"
proof -
  from assms(1,2) have "\<exists>r \<in> set new_records. map_of r ''SourceFile'' \<noteq> None"
    by (cases new_records) auto
  from merge_rows [OF this assms(3)] obtain df_merged where
    m: "merge df_existing new_records = Inr df_merged"
    and r: "rows df_merged =
               filter (\<lambda>r. map_of r ''SourceFile'' \<notin> set (map (\<lambda>n. map_of n ''SourceFile'') new_records))
                 (rows df_existing) @ new_records"
    by blast
  from r have "\<forall>row_a row_b new_a id_a id_b.
                 rows df_existing = [row_a, row_b] \<and> new_records = [new_a]
                 \<and> map_of row_a ''SourceFile'' = Some id_a \<and> map_of row_b ''SourceFile'' = Some id_b
                 \<and> id_a \<noteq> id_b \<and> map_of new_a ''SourceFile'' = Some id_a
                 \<longrightarrow> rows df_merged = [row_b, new_a]"
    by auto
  with m r show ?thesis by blast
qed

theorem merge_replaces_rows_witness:
  "[[(''SourceFile'', JStr ''A.pdf''), (''Clustering'', JStr ''BERTopic'' :: unit jval)]] \<noteq> []
   \<and> merge \<lparr>columns = [''Clustering'', ''SourceFile''],
             rows = [[(''Clustering'', JStr ''LDA''), (''SourceFile'', JStr ''A.pdf'')],
                     [(''Clustering'', JStr ''CorEx''), (''SourceFile'', JStr ''B.pdf'')]]\<rparr>
        [[(''SourceFile'', JStr ''A.pdf''), (''Clustering'', JStr ''BERTopic'' :: unit jval)]]
     = Inr \<lparr>columns = [''Clustering'', ''SourceFile''],
            rows = [[(''Clustering'', JStr ''CorEx''), (''SourceFile'', JStr ''B.pdf'')],
                    [(''SourceFile'', JStr ''A.pdf''), (''Clustering'', JStr ''BERTopic'')]]\<rparr>"
proof -
  let ?new = "[[(''SourceFile'', JStr ''A.pdf''), (''Clustering'', JStr ''BERTopic'' :: unit jval)]]"
  let ?old = "\<lparr>columns = [''Clustering'', ''SourceFile''],
             rows = [[(''Clustering'', JStr ''LDA''), (''SourceFile'', JStr ''A.pdf'')],
                     [(''Clustering'', JStr ''CorEx''), (''SourceFile'', JStr ''B.pdf'' :: unit jval)]]\<rparr>"
  have h1: "?new \<noteq> []" by simp
  have h2: "\<forall>n \<in> set ?new. map_of n ''SourceFile'' \<noteq> None" by simp
  have h3: "rows ?old \<noteq> [] \<longrightarrow> ''SourceFile'' \<in> set (columns ?old)" by simp
  from merge_replaces_rows [OF h1 h2 h3] obtain df_merged where
    m: "merge ?old ?new = Inr df_merged" and
    r: "rows df_merged = [[(''Clustering'', JStr ''CorEx''), (''SourceFile'', JStr ''B.pdf'')],
                    [(''SourceFile'', JStr ''A.pdf''), (''Clustering'', JStr ''BERTopic'')]]"
    by auto
  have "merge ?old ?new = Inr \<lparr>columns = [''Clustering'', ''SourceFile''],
            rows = [[(''Clustering'', JStr ''CorEx''), (''SourceFile'', JStr ''B.pdf'')],
                    [(''SourceFile'', JStr ''A.pdf''), (''Clustering'', JStr ''BERTopic'')]]\<rparr>"
    by (simp add: merge_def DataFrame_def df_empty_def getitem_def isin_def drop_masked_def concat_frames_def)
  with h1 m r show ?thesis by simp
qed

text \<open>
  C2. Merging an empty batch into an existing dataset with one row does not return the
  dataset: \<open>df_new\<close> has no column \<open>SourceFile\<close>, and line 166 raises \<open>KeyError\<close>. (For an empty
  existing dataset the filter is skipped and the dataset comes back, lemma
  \<open>merge_empty_batch_empty_existing\<close>.)
\<close>

theorem merge_empty_batch_raises:
  "merge \<lparr>columns = [''SourceFile''], rows = [[(''SourceFile'', JStr ''a.pdf'' :: unit jval)]]\<rparr> []
     = Inl KeyError"
  by (simp add: merge_def DataFrame_def df_empty_def getitem_def)

text \<open>
  C3, as amended. For a record whose category fields are strings or absent, normalisation
  succeeds and every category field becomes the canonical text of its raw text: the raw text (absent:
  \<open>Not specified\<close>) split on \<open>;\<close>, each piece trimmed, empty pieces discarded, the items
  (a case variant of the sentinel written as \<open>Not specified\<close>, see C5, any other item as it
  is) rejoined with \<open>"; "\<close> in order, repeated items kept; \<open>Not specified\<close> when no item is
  left, as for \<open>"  ; ;  "\<close>. When no item is a case variant of the sentinel, the canonical
  text is the join of the trimmed non-empty pieces themselves (\<open>rejoined_text\<close>).
\<close>

theorem normalized_field_text:
  assumes "distinct (map fst em)"
    and "fst ` set em \<subseteq> fst ` set nm"
    and "\<forall>key \<in> fst ` set em. \<exists>raw. get_field r key = JStr raw"
  shows "\<exists>r' nm'. normalize_keys nm r em = (Inr r', nm')
           \<and> (\<forall>key raw. key \<in> fst ` set em \<and> get_field r key = JStr raw
                 \<longrightarrow> map_of r' key = Some (JStr (spec_canonical raw)))
           \<and> (\<forall>key. key \<in> fst ` set em \<and> map_of r key = None
                 \<longrightarrow> map_of r' key = Some (JStr ''Not specified''))
           \<and> spec_canonical ''  ; ;  '' = ''Not specified''
           \<and> (\<forall>raw. (\<forall>it \<in> set (items raw). lower it \<noteq> ''not specified'')
                 \<longrightarrow> spec_canonical raw = rejoined_text raw)"
proof -
  from normalize_keys_record [OF assms] obtain r' nm' where
    res: "normalize_keys nm r em = (Inr r', nm')"
    and f: "\<forall>k. map_of r' k =
                 (if k \<in> fst ` set em
                  then (case get_field r k of
                          JStr raw \<Rightarrow> Some (JStr (spec_canonical raw)) | JOther x \<Rightarrow> None)
                  else map_of r k)" by blast
  have a: "\<forall>key raw. key \<in> fst ` set em \<and> get_field r key = JStr raw
                 \<longrightarrow> map_of r' key = Some (JStr (spec_canonical raw))"
    using f by simp
  have b: "\<forall>key. key \<in> fst ` set em \<and> map_of r key = None
                 \<longrightarrow> map_of r' key = Some (JStr ''Not specified'')"
    using f by (simp add: get_field_def spec_canonical_sentinel)
  have c: "spec_canonical ''  ; ;  '' = ''Not specified''"
    by code_simp
  have d: "(\<forall>raw. (\<forall>it \<in> set (items raw). lower it \<noteq> ''not specified'')
          \<longrightarrow> spec_canonical raw = rejoined_text raw)"
  proof (intro allI impI)
    fix raw assume "\<forall>it \<in> set (items raw). lower it \<noteq> ''not specified''"
    then have "map spec_item (items raw) = items raw"
      by (intro map_idI) (simp add: spec_item_def)
    then show "spec_canonical raw = rejoined_text raw"
      by (simp add: spec_canonical_items rejoined_text_def items_pieces)
  qed
  from res a b c d show ?thesis by blast
qed

theorem normalized_field_text_witness:
  "distinct (map fst (enum_methods None))
   \<and> (\<exists>r' nm'.
        normalize_keys (normalize_map (enum_methods None))
          [(''Document'', JStr ''T''),
           (''TermPreprocessing'', JStr '' Lemmatization;Stop-word removal ; ;NOT specified;Lemmatization''),
           (''Clustering'', JStr ''  ; ;  '' :: unit jval)]
          (enum_methods None) = (Inr r', nm')
        \<and> map_of r' ''TermPreprocessing''
            = Some (JStr ''Lemmatization; Stop-word removal; Not specified; Lemmatization'')
        \<and> map_of r' ''Clustering'' = Some (JStr ''Not specified'')
        \<and> map_of r' ''AnalyzedFields'' = Some (JStr ''Not specified''))"
proof -
  let ?em = "enum_methods None"
  let ?r = "[(''Document'', JStr ''T''),
           (''TermPreprocessing'', JStr '' Lemmatization;Stop-word removal ; ;NOT specified;Lemmatization''),
           (''Clustering'', JStr ''  ; ;  '' :: unit jval)]"
  have h1: "distinct (map fst ?em)" by (simp add: enum_methods_def)
  have h2: "fst ` set ?em \<subseteq> fst ` set (normalize_map ?em)"
    by (simp add: enum_methods_def normalize_map_def)
  have h3: "\<forall>key \<in> fst ` set ?em. \<exists>raw. get_field ?r key = JStr raw"
    by (simp add: enum_methods_def get_field_def)
  have keys: "''TermPreprocessing'' \<in> fst ` set ?em" "''Clustering'' \<in> fst ` set ?em"
    "''AnalyzedFields'' \<in> fst ` set ?em"
    by (simp_all add: enum_methods_def)
  have fields: "get_field ?r ''TermPreprocessing''
        = JStr '' Lemmatization;Stop-word removal ; ;NOT specified;Lemmatization''"
    "get_field ?r ''Clustering'' = JStr ''  ; ;  ''"
    "map_of ?r ''AnalyzedFields'' = None"
    by (simp_all add: get_field_def)
  have canon: "spec_canonical '' Lemmatization;Stop-word removal ; ;NOT specified;Lemmatization''
        = ''Lemmatization; Stop-word removal; Not specified; Lemmatization''"
    by code_simp
  from normalized_field_text [OF h1 h2 h3] obtain r' nm' where
    res: "normalize_keys (normalize_map ?em) ?r ?em = (Inr r', nm')"
    and a: "\<forall>key raw. key \<in> fst ` set ?em \<and> get_field ?r key = JStr raw
                 \<longrightarrow> map_of r' key = Some (JStr (spec_canonical raw))"
    and b: "\<forall>key. key \<in> fst ` set ?em \<and> map_of ?r key = None
                 \<longrightarrow> map_of r' key = Some (JStr ''Not specified'')"
    and c: "spec_canonical ''  ; ;  '' = ''Not specified''"
    by blast
  from a keys(1) fields(1) canon have 1: "map_of r' ''TermPreprocessing''
            = Some (JStr ''Lemmatization; Stop-word removal; Not specified; Lemmatization'')"
    by metis
  from a keys(2) fields(2) c have 2: "map_of r' ''Clustering'' = Some (JStr ''Not specified'')"
    by metis
  from b keys(3) fields(3) have 3: "map_of r' ''AnalyzedFields'' = Some (JStr ''Not specified'')"
    by blast
  from h1 res 1 2 3 show ?thesis by blast
qed

text \<open>
  C3 as stated fails for an item that is a case variant of the sentinel: the field
  \<open>"NOT SPECIFIED; LDA"\<close> becomes \<open>"Not specified; LDA"\<close> (lines 115 and 116), where rejoining the
  trimmed pieces gives \<open>"NOT SPECIFIED; LDA"\<close>.
\<close>

theorem normalized_field_text_counterexample:
  "normalize_keys (normalize_map (enum_methods None))
      [(''Clustering'', JStr ''NOT SPECIFIED; LDA'' :: unit jval)] (enum_methods None)
     = (Inr [(''Clustering'', JStr ''Not specified; LDA''), (''AnalyzedFields'', JStr ''Not specified''),
             (''TermPreprocessing'', JStr ''Not specified''), (''ClusterAnalysis'', JStr ''Not specified'')],
        [(''AnalyzedFields'', {||}), (''TermPreprocessing'', {||}),
         (''Clustering'', {|''LDA''|}), (''ClusterAnalysis'', {||})])
   \<and> rejoined_text ''NOT SPECIFIED; LDA'' = ''NOT SPECIFIED; LDA''
   \<and> ''Not specified; LDA'' \<noteq> rejoined_text ''NOT SPECIFIED; LDA''"
  by code_simp

text \<open>
  C4. Vocabulary monotonicity. Over any list of documents, from any state of
  \<open>normalize_map\<close>, whether the documents succeed or fail: the categories stay the same, a
  category's label set keeps all its labels, and a label it gains is neither empty nor a
  case variant of \<open>Not specified\<close>.
\<close>

theorem vocabulary_monotonic:
  assumes "main_loop extractor em (new_records, errs, nm) pdfs = (new_records', errs', nm')"
    and "map_of nm key = Some labels"
  shows "map fst nm' = map fst nm
       \<and> (\<exists>labels'. map_of nm' key = Some labels' \<and> labels |\<subseteq>| labels'
            \<and> (\<forall>s. s |\<in>| labels' \<longrightarrow> s |\<notin>| labels
                   \<longrightarrow> s \<noteq> [] \<and> lower s \<noteq> ''not specified''))"
proof -
  have "vocabulary_grows nm nm'"
    using main_loop_grows [of nm extractor em new_records errs pdfs] assms(1) by simp
  then show ?thesis
    using vocabulary_grows_keys vocabulary_grows_lookup [OF _ assms(2)] by blast
qed

theorem vocabulary_monotonic_witness:
  "main_loop (\<lambda>p. Inr [(''Clustering'', JStr ''LDA; not Specified;  ;'' :: unit jval)])
      (enum_methods (Some [(''Clustering'', [''BERTopic''])]))
      ([], [], normalize_map (enum_methods (Some [(''Clustering'', [''BERTopic''])]))) [''a.pdf'']
     = ([[(''Clustering'', JStr ''LDA; Not specified''), (''SourceFile'', JStr ''a.pdf'')]],
        [], [(''Clustering'', {|''LDA'', ''BERTopic''|})])
   \<and> map_of (normalize_map (enum_methods (Some [(''Clustering'', [''BERTopic''])]))) ''Clustering''
       = Some {|''BERTopic''|}
   \<and> (\<exists>labels'. map_of [(''Clustering'', {|''LDA'', ''BERTopic''|})] ''Clustering'' = Some labels'
          \<and> {|''BERTopic''|} |\<subseteq>| labels')"
proof -
  have run: "main_loop (\<lambda>p. Inr [(''Clustering'', JStr ''LDA; not Specified;  ;'' :: unit jval)])
      (enum_methods (Some [(''Clustering'', [''BERTopic''])]))
      ([], [], normalize_map (enum_methods (Some [(''Clustering'', [''BERTopic''])]))) [''a.pdf'']
     = ([[(''Clustering'', JStr ''LDA; Not specified''), (''SourceFile'', JStr ''a.pdf'')]],
        [], [(''Clustering'', {|''LDA'', ''BERTopic''|})])"
    by code_simp
  have look: "map_of (normalize_map (enum_methods (Some [(''Clustering'', [''BERTopic''])]))) ''Clustering''
       = Some {|''BERTopic''|}"
    by (simp add: normalize_map_def enum_methods_def)
  from vocabulary_monotonic [OF run look] show ?thesis
    using run look by blast
qed

text \<open>
  C5. The loop over the items of one field, when the category has a label set that holds
  the loaded labels: an item whose lower-case form is \<open>not specified\<close> is emitted as
  \<open>Not specified\<close> and adds nothing; every other item is emitted verbatim and is a member of
  the label set afterwards. The label set ends as the old one united with the non-sentinel
  items, and no other category changes.
\<close>

theorem sentinel_and_verbatim_items:
  assumes "map_of nm key = Some labels" and "fset_of_list known |\<subseteq>| labels"
  shows "\<exists>nm'. normalize_items key known nm normalized its =
           (Inr (normalized @ map (\<lambda>it. if lower it = ''not specified'' then ''Not specified'' else it) its),
            nm')
         \<and> map fst nm' = map fst nm
         \<and> map_of nm' = (map_of nm)
              (key \<mapsto> labels |\<union>| fset_of_list (filter (\<lambda>it. lower it \<noteq> ''not specified'') its))"
proof -
  have "(\<lambda>it. if lower it = ''not specified'' then ''Not specified'' else it) = spec_item"
    by (simp add: spec_item_def fun_eq_iff)
  then show ?thesis
    using normalize_items_result [OF assms(1), of known normalized its] known_absorbed [OF assms(2), of its]
    by (simp add: update_conv' update_keys assms(1) map_of_eq_None_iff [symmetric] del: map_of_eq_None_iff)
qed

theorem sentinel_and_verbatim_items_witness:
  "map_of [(''Clustering'', {|''BERTopic''|})] ''Clustering'' = Some {|''BERTopic''|}
   \<and> fset_of_list [''BERTopic''] |\<subseteq>| {|''BERTopic''|}
   \<and> (\<exists>nm'. normalize_items ''Clustering'' [''BERTopic''] [(''Clustering'', {|''BERTopic''|})] []
                 [''LDA'', ''NOT Specified'', ''BERTopic'', ''LDA'']
               = (Inr [''LDA'', ''Not specified'', ''BERTopic'', ''LDA''], nm')
            \<and> map_of nm' ''Clustering'' = Some {|''LDA'', ''BERTopic''|})"
proof -
  have look: "map_of [(''Clustering'', {|''BERTopic''|})] ''Clustering'' = Some {|''BERTopic''|}"
    by simp
  have sub: "fset_of_list [''BERTopic''] |\<subseteq>| {|''BERTopic''|}"
    by simp
  have low: "lower ''LDA'' = ''lda''" "lower ''NOT Specified'' = ''not specified''"
    "lower ''BERTopic'' = ''bertopic''"
    by code_simp+
  from sentinel_and_verbatim_items [OF look sub, of "[]" "[''LDA'', ''NOT Specified'', ''BERTopic'', ''LDA'']"]
  show ?thesis
    using look sub low by auto
qed

text \<open>
  C6, as amended. Failure isolation. Let a document of the batch fail (its outcome does
  not depend on the vocabulary state, lemma \<open>process_pdf_outcome\<close>, so it is read from the
  initial state). Then the document is reported with its error, no new record carries its
  identifier, and for every document that succeeds the merge (lines 161 to 169) gives a
  merged dataset that has the document's row and whose rows with the failed document's
  identifier are those of the existing dataset. When the write of the merged table (line
  170) does not raise, the run ends with this dataset, and the rows of the Excel file with
  the failed document's identifier are the same after the run as before.
  The file names of one batch are distinct (for a directory listing, lemma
  \<open>pdf_paths_distinct\<close>), and an existing dataset with rows has the identifier column.
  (When no document succeeds and the existing dataset has rows, the run ends with the
  \<open>KeyError\<close> of C2 before the file is written, lemma \<open>all_documents_fail_raises\<close>; the prior
  rows are then still in the file.)
\<close>

theorem failure_isolation:
  assumes "distinct (map basename pdfs)"
    and "case excel of None \<Rightarrow> True
         | Some df \<Rightarrow> rows df \<noteq> [] \<longrightarrow> ''SourceFile'' \<in> set (columns df)"
    and "x \<in> set pdfs"
    and "fst (process_pdf extractor (enum_methods file) (normalize_map (enum_methods file)) x) = Inl e"
  shows "(x, e) \<in> set (fst (main extractor file excel pdfs))
       \<and> (\<forall>n \<in> set (fst (main_loop extractor (enum_methods file)
                              ([], [], normalize_map (enum_methods file)) pdfs)).
             map_of n ''SourceFile'' \<noteq> Some (JStr (basename x)))
       \<and> (\<forall>z n. z \<in> set pdfs
              \<and> fst (process_pdf extractor (enum_methods file) (normalize_map (enum_methods file)) z) = Inr n
            \<longrightarrow> (\<exists>df_merged.
                   merge (case excel of Some df \<Rightarrow> df | None \<Rightarrow> DataFrame [])
                     (fst (main_loop extractor (enum_methods file)
                             ([], [], normalize_map (enum_methods file)) pdfs)) = Inr df_merged
                   \<and> AList.update ''SourceFile'' (JStr (basename z)) n \<in> set (rows df_merged)
                   \<and> filter (\<lambda>r. map_of r ''SourceFile'' = Some (JStr (basename x))) (rows df_merged)
                       = filter (\<lambda>r. map_of r ''SourceFile'' = Some (JStr (basename x))) (table_rows excel)))
       \<and> (snd (main extractor file excel pdfs) \<noteq> Inl IllegalCharacterError
            \<longrightarrow> (\<forall>z n. z \<in> set pdfs
                    \<and> fst (process_pdf extractor (enum_methods file) (normalize_map (enum_methods file)) z) = Inr n
                  \<longrightarrow> (\<exists>df_merged saved.
                         snd (main extractor file excel pdfs) = Inr (df_merged, saved)
                         \<and> AList.update ''SourceFile'' (JStr (basename z)) n \<in> set (rows df_merged)))
              \<and> (\<exists>xlsx. excel_after excel (snd (main extractor file excel pdfs)) = File xlsx
                   \<and> filter (\<lambda>r. map_of r ''SourceFile'' = Some (JStr (basename x))) (table_rows xlsx)
                       = filter (\<lambda>r. map_of r ''SourceFile'' = Some (JStr (basename x))) (table_rows excel)))"
proof -
  let ?em = "enum_methods file"
  let ?nm0 = "normalize_map ?em"
  let ?out = "\<lambda>pdf. fst (process_pdf extractor ?em ?nm0 pdf)"
  let ?N = "concat (map (\<lambda>pdf. case ?out pdf of
                                   Inl e \<Rightarrow> []
                                 | Inr n \<Rightarrow> [AList.update ''SourceFile'' (JStr (basename pdf)) n]) pdfs)"
  let ?E = "concat (map (\<lambda>pdf. case ?out pdf of Inl e \<Rightarrow> [(pdf, e)] | Inr n \<Rightarrow> []) pdfs)"
  let ?old = "case excel of Some df \<Rightarrow> df | None \<Rightarrow> DataFrame []"
  let ?idx = "Some (JStr (basename x))"
  let ?is_x = "\<lambda>r. map_of r ''SourceFile'' = ?idx"
  have keys: "fst ` set ?em \<subseteq> fst ` set ?nm0"
    by (simp add: normalize_map_keys)
  from main_loop_records [OF keys keys, of extractor "[]" "[]" pdfs] obtain nm' where
    loop: "main_loop extractor ?em ([], [], ?nm0) pdfs = (?N, ?E, nm')" by auto
  have run0: "main extractor file excel pdfs =
      (?E, case merge ?old ?N of
             Inl e \<Rightarrow> Inl e
           | Inr df_merged \<Rightarrow>
               (case to_excel df_merged of
                  Inl e \<Rightarrow> Inl e
                | Inr written \<Rightarrow> Inr (written, save_methods nm')))"
    using loop by (simp add: main_def Let_def)
  have old_rows: "rows ?old = table_rows excel"
    by (cases excel) (simp_all add: table_rows_def DataFrame_def)
  have inN: "\<And>z n. z \<in> set pdfs \<Longrightarrow> ?out z = Inr n
               \<Longrightarrow> AList.update ''SourceFile'' (JStr (basename z)) n \<in> set ?N"
    by force
  have inE: "(x, e) \<in> set ?E"
    using assms(3,4) by force
  have N_ids: "\<And>r. r \<in> set ?N \<Longrightarrow>
                 \<exists>z \<in> set pdfs. z \<noteq> x \<and> map_of r ''SourceFile'' = Some (JStr (basename z))"
  proof -
    fix r assume "r \<in> set ?N"
    then obtain z where z: "z \<in> set pdfs"
      and rz: "r \<in> set (case ?out z of Inl e \<Rightarrow> []
                           | Inr n \<Rightarrow> [AList.update ''SourceFile'' (JStr (basename z)) n])"
      by auto
    then obtain n where o: "?out z = Inr n"
      and r: "r = AList.update ''SourceFile'' (JStr (basename z)) n"
      by (cases "?out z") auto
    from o assms(4) have "z \<noteq> x" by auto
    with z r show "\<exists>z \<in> set pdfs. z \<noteq> x \<and> map_of r ''SourceFile'' = Some (JStr (basename z))"
      by (auto simp: update_conv')
  qed
  have inj: "inj_on basename (set pdfs)"
    using assms(1) by (simp add: distinct_map)
  have not_x: "\<And>r. r \<in> set ?N \<Longrightarrow> map_of r ''SourceFile'' \<noteq> ?idx"
  proof -
    fix r assume "r \<in> set ?N"
    from N_ids [OF this] obtain z where z: "z \<in> set pdfs" "z \<noteq> x"
      and id: "map_of r ''SourceFile'' = Some (JStr (basename z))" by blast
    from inj z assms(3) have "basename z \<noteq> basename x"
      by (auto dest: inj_onD)
    with id show "map_of r ''SourceFile'' \<noteq> ?idx" by simp
  qed
  have excluded: "\<forall>n \<in> set (fst (main_loop extractor ?em ([], [], ?nm0) pdfs)).
                    map_of n ''SourceFile'' \<noteq> ?idx"
    unfolding loop fst_conv using not_x by blast
  have old_ok: "rows ?old \<noteq> [] \<longrightarrow> ''SourceFile'' \<in> set (columns ?old)"
    using assms(2) by (cases excel) (simp_all add: DataFrame_def)
  have merged: "\<exists>df_merged. merge ?old ?N = Inr df_merged
           \<and> rows df_merged =
               filter (\<lambda>r. map_of r ''SourceFile'' \<notin> set (map (\<lambda>n. map_of n ''SourceFile'') ?N))
                 (rows ?old) @ ?N"
    if "?N \<noteq> []"
  proof -
    from that obtain r where r: "r \<in> set ?N" by (cases ?N) auto
    from N_ids [OF r] have "map_of r ''SourceFile'' \<noteq> None" by auto
    with r have "\<exists>r \<in> set ?N. map_of r ''SourceFile'' \<noteq> None" by blast
    from merge_rows [OF this old_ok] show ?thesis .
  qed
  have idx_kept: "?idx \<notin> set (map (\<lambda>n. map_of n ''SourceFile'') ?N)"
  proof
    assume "?idx \<in> set (map (\<lambda>n. map_of n ''SourceFile'') ?N)"
    then have "?idx \<in> (\<lambda>n. map_of n ''SourceFile'') ` set ?N"
      by (simp only: set_map)
    then obtain r where "r \<in> set ?N" and "?idx = map_of r ''SourceFile''"
      by (rule imageE)
    with not_x [of r] show False by simp
  qed
  have kept_rows: "filter ?is_x (rows df_merged) = filter ?is_x (table_rows excel)"
    if Inr: "merge ?old ?N = Inr df_merged" for df_merged
  proof (cases "?N = []")
    case True
    with Inr have "rows df_merged = rows ?old"
      by (simp add: merge_empty_batch_rows)
    with old_rows show ?thesis by simp
  next
    case False
    from merged [OF False] Inr have rows: "rows df_merged =
             filter (\<lambda>r. map_of r ''SourceFile'' \<notin> set (map (\<lambda>n. map_of n ''SourceFile'') ?N))
               (rows ?old) @ ?N" by simp
    have new_none: "filter ?is_x ?N = []"
      using not_x by (simp add: filter_empty_conv)
    have old_kept: "filter ?is_x
                  (filter (\<lambda>r. map_of r ''SourceFile'' \<notin> set (map (\<lambda>n. map_of n ''SourceFile'') ?N)) (rows ?old))
                = filter ?is_x (rows ?old)"
      using idx_kept by (rule filter_kept)
    have "filter ?is_x (rows df_merged)
            = filter ?is_x
                (filter (\<lambda>r. map_of r ''SourceFile'' \<notin> set (map (\<lambda>n. map_of n ''SourceFile'') ?N)) (rows ?old))
              @ filter ?is_x ?N"
      by (simp only: rows filter_append)
    also have "\<dots> = filter ?is_x (rows ?old)"
      by (simp only: new_none old_kept append_Nil2)
    finally show ?thesis
      by (simp only: old_rows)
  qed
  have in_merged: "\<exists>df_merged. merge ?old ?N = Inr df_merged
                   \<and> AList.update ''SourceFile'' (JStr (basename z)) n \<in> set (rows df_merged)
                   \<and> filter ?is_x (rows df_merged) = filter ?is_x (table_rows excel)"
    if zn: "z \<in> set pdfs \<and> ?out z = Inr n" for z n
  proof -
    from zn have mem: "AList.update ''SourceFile'' (JStr (basename z)) n \<in> set ?N"
      using inN by blast
    have "\<And>y ys. (y :: 'a pyrecord) \<in> set ys \<Longrightarrow> ys \<noteq> []" by auto
    from this [OF mem] have "?N \<noteq> []" .
    from merged [OF this] obtain df_merged where
      m: "merge ?old ?N = Inr df_merged"
      and rows: "rows df_merged =
               filter (\<lambda>r. map_of r ''SourceFile'' \<notin> set (map (\<lambda>n. map_of n ''SourceFile'') ?N))
                 (rows ?old) @ ?N" by blast
    from mem rows have "AList.update ''SourceFile'' (JStr (basename z)) n \<in> set (rows df_merged)"
      by simp
    with m kept_rows [OF m] show ?thesis by blast
  qed
  have memory: "\<forall>z n. z \<in> set pdfs \<and> ?out z = Inr n
            \<longrightarrow> (\<exists>df_merged.
                   merge ?old (fst (main_loop extractor ?em ([], [], ?nm0) pdfs)) = Inr df_merged
                   \<and> AList.update ''SourceFile'' (JStr (basename z)) n \<in> set (rows df_merged)
                   \<and> filter ?is_x (rows df_merged) = filter ?is_x (table_rows excel))"
    unfolding loop fst_conv using in_merged by blast
  have on_file: "(\<forall>z n. z \<in> set pdfs \<and> ?out z = Inr n
            \<longrightarrow> (\<exists>df_merged saved.
                   snd (main extractor file excel pdfs) = Inr (df_merged, saved)
                   \<and> AList.update ''SourceFile'' (JStr (basename z)) n \<in> set (rows df_merged)))
          \<and> (\<exists>xlsx. excel_after excel (snd (main extractor file excel pdfs)) = File xlsx
                \<and> filter ?is_x (table_rows xlsx) = filter ?is_x (table_rows excel))"
    if no_write_error: "snd (main extractor file excel pdfs) \<noteq> Inl IllegalCharacterError"
  proof -
    have written: "to_excel df = Inr df" if "merge ?old ?N = Inr df" for df
    proof (rule ccontr)
      assume "to_excel df \<noteq> Inr df"
      then have "to_excel df = Inl IllegalCharacterError"
        by (simp add: to_excel_def split: if_splits)
      with that run0 no_write_error show False by simp
    qed
    have run: "main extractor file excel pdfs =
        (?E, case merge ?old ?N of Inl e \<Rightarrow> Inl e | Inr df_merged \<Rightarrow> Inr (df_merged, save_methods nm'))"
      unfolding run0 using written by (cases "merge ?old ?N") simp_all
    have appear: "\<forall>z n. z \<in> set pdfs \<and> ?out z = Inr n
            \<longrightarrow> (\<exists>df_merged saved.
                   snd (main extractor file excel pdfs) = Inr (df_merged, saved)
                   \<and> AList.update ''SourceFile'' (JStr (basename z)) n \<in> set (rows df_merged))"
    proof (intro allI impI)
      fix z n assume zn: "z \<in> set pdfs \<and> ?out z = Inr n"
      from in_merged [OF zn] obtain df_merged where
        m: "merge ?old ?N = Inr df_merged"
        and "AList.update ''SourceFile'' (JStr (basename z)) n \<in> set (rows df_merged)" by blast
      with run show "\<exists>df_merged saved.
                   snd (main extractor file excel pdfs) = Inr (df_merged, saved)
                   \<and> AList.update ''SourceFile'' (JStr (basename z)) n \<in> set (rows df_merged)"
        by simp
    qed
    have prior: "\<exists>xlsx. excel_after excel (snd (main extractor file excel pdfs)) = File xlsx
             \<and> filter ?is_x (table_rows xlsx) = filter ?is_x (table_rows excel)"
    proof (cases "merge ?old ?N")
      case (Inl err)
      with run no_write_error have "err \<noteq> IllegalCharacterError" by auto
      with Inl run show ?thesis by (simp add: excel_after_def)
    next
      case (Inr df_merged)
      have xlsx: "excel_after excel (snd (main extractor file excel pdfs)) = File (Some df_merged)"
        using run Inr by (simp add: excel_after_def)
      have "filter ?is_x (table_rows (Some df_merged)) = filter ?is_x (table_rows excel)"
        using kept_rows [OF Inr] by (simp add: table_rows_def)
      with xlsx show ?thesis by blast
    qed
    from appear prior show ?thesis by blast
  qed
  from inE run0 have "(x, e) \<in> set (fst (main extractor file excel pdfs))" by simp
  with excluded memory on_file show ?thesis by blast
qed

theorem failure_isolation_witness:
  "distinct (map basename [''in/a.pdf'', ''in/x.pdf'', ''in/c.pdf''])
   \<and> fst (process_pdf
           (\<lambda>p. if p = ''in/x.pdf'' then Inl ValueError else Inr [(''Clustering'', JStr ''LDA'' :: unit jval)])
           (enum_methods None) (normalize_map (enum_methods None)) ''in/x.pdf'') = Inl ValueError
   \<and> snd (main
           (\<lambda>p. if p = ''in/x.pdf'' then Inl ValueError else Inr [(''Clustering'', JStr ''LDA'' :: unit jval)])
           None
           (Some \<lparr>columns = [''SourceFile'', ''Clustering''],
                  rows = [[(''SourceFile'', JStr ''x.pdf''), (''Clustering'', JStr ''CorEx'')],
                          [(''SourceFile'', JStr ''a.pdf''), (''Clustering'', JStr ''DTM'')]]\<rparr>)
           [''in/a.pdf'', ''in/x.pdf'', ''in/c.pdf'']) \<noteq> Inl IllegalCharacterError
   \<and> (''in/x.pdf'', ValueError)
       \<in> set (fst (main
                (\<lambda>p. if p = ''in/x.pdf'' then Inl ValueError else Inr [(''Clustering'', JStr ''LDA'' :: unit jval)])
                None
                (Some \<lparr>columns = [''SourceFile'', ''Clustering''],
                       rows = [[(''SourceFile'', JStr ''x.pdf''), (''Clustering'', JStr ''CorEx'')],
                               [(''SourceFile'', JStr ''a.pdf''), (''Clustering'', JStr ''DTM'')]]\<rparr>)
                [''in/a.pdf'', ''in/x.pdf'', ''in/c.pdf'']))
   \<and> (\<exists>xlsx.
        excel_after
          (Some \<lparr>columns = [''SourceFile'', ''Clustering''],
                 rows = [[(''SourceFile'', JStr ''x.pdf''), (''Clustering'', JStr ''CorEx'')],
                         [(''SourceFile'', JStr ''a.pdf''), (''Clustering'', JStr ''DTM'')]]\<rparr>)
          (snd (main
              (\<lambda>p. if p = ''in/x.pdf'' then Inl ValueError else Inr [(''Clustering'', JStr ''LDA'' :: unit jval)])
              None
              (Some \<lparr>columns = [''SourceFile'', ''Clustering''],
                     rows = [[(''SourceFile'', JStr ''x.pdf''), (''Clustering'', JStr ''CorEx'')],
                             [(''SourceFile'', JStr ''a.pdf''), (''Clustering'', JStr ''DTM'')]]\<rparr>)
              [''in/a.pdf'', ''in/x.pdf'', ''in/c.pdf''])) = File xlsx
        \<and> filter (\<lambda>r. map_of r ''SourceFile'' = Some (JStr ''x.pdf'')) (table_rows xlsx)
            = [[(''SourceFile'', JStr ''x.pdf''), (''Clustering'', JStr ''CorEx'')]])"
proof -
  let ?ex = "\<lambda>p. if p = ''in/x.pdf'' then Inl ValueError else Inr [(''Clustering'', JStr ''LDA'' :: unit jval)]"
  let ?excel = "Some \<lparr>columns = [''SourceFile'', ''Clustering''],
                       rows = [[(''SourceFile'', JStr ''x.pdf''), (''Clustering'', JStr ''CorEx'' :: unit jval)],
                               [(''SourceFile'', JStr ''a.pdf''), (''Clustering'', JStr ''DTM'')]]\<rparr>"
  let ?pdfs = "[''in/a.pdf'', ''in/x.pdf'', ''in/c.pdf'']"
  have bn: "basename ''in/x.pdf'' = ''x.pdf''"
    by (simp add: basename_def)
  have h1: "distinct (map basename ?pdfs)"
    by (simp add: basename_def)
  have h2: "case ?excel of None \<Rightarrow> True
         | Some df \<Rightarrow> rows df \<noteq> [] \<longrightarrow> ''SourceFile'' \<in> set (columns df)"
    by simp
  have h3: "''in/x.pdf'' \<in> set ?pdfs" by simp
  have h4: "fst (process_pdf ?ex (enum_methods None) (normalize_map (enum_methods None)) ''in/x.pdf'')
              = Inl ValueError"
    by (simp add: process_pdf_def)
  have h5: "snd (main ?ex None ?excel ?pdfs) \<noteq> Inl IllegalCharacterError"
    by (simp add: failure_isolation_run)
  have prior: "filter (\<lambda>r. map_of r ''SourceFile'' = Some (JStr ''x.pdf'')) (table_rows ?excel)
       = [[(''SourceFile'', JStr ''x.pdf''), (''Clustering'', JStr ''CorEx'')]]"
    by (simp add: table_rows_def)
  from failure_isolation [OF h1 h2 h3 h4] h5 have
    rep: "(''in/x.pdf'', ValueError) \<in> set (fst (main ?ex None ?excel ?pdfs))"
    and kept: "\<exists>xlsx. excel_after ?excel (snd (main ?ex None ?excel ?pdfs)) = File xlsx
           \<and> filter (\<lambda>r. map_of r ''SourceFile'' = Some (JStr (basename ''in/x.pdf''))) (table_rows xlsx)
               = filter (\<lambda>r. map_of r ''SourceFile'' = Some (JStr (basename ''in/x.pdf''))) (table_rows ?excel)"
    by blast+
  from kept have kept': "\<exists>xlsx. excel_after ?excel (snd (main ?ex None ?excel ?pdfs)) = File xlsx
           \<and> filter (\<lambda>r. map_of r ''SourceFile'' = Some (JStr ''x.pdf'')) (table_rows xlsx)
               = [[(''SourceFile'', JStr ''x.pdf''), (''Clustering'', JStr ''CorEx'')]]"
    by (simp only: bn prior)
  from h1 h4 h5 rep kept' show ?thesis by blast
qed

text \<open>
  C6 as stated fails when \<open>to_excel\<close> raises: a document that succeeds with a label holding
  U+0001 (which \<open>strip\<close> keeps) makes line 170 raise \<open>IllegalCharacterError\<close> after the merge.
  The run ends without a merged dataset for the document that succeeded, the file is
  partly written, and \<open>save_methods\<close> is not reached.
\<close>

theorem failure_isolation_counterexample:
  "fst (process_pdf
         (\<lambda>p. if p = ''in/x.pdf'' then Inl ValueError
              else Inr [(''Clustering'', JStr [CHR ''L'', CHR 0x01] :: unit jval)])
         (enum_methods None) (normalize_map (enum_methods None)) ''in/a.pdf'')
     = Inr [(''Clustering'', JStr [CHR ''L'', CHR 0x01]), (''AnalyzedFields'', JStr ''Not specified''),
            (''TermPreprocessing'', JStr ''Not specified''), (''ClusterAnalysis'', JStr ''Not specified'')]
   \<and> main
         (\<lambda>p. if p = ''in/x.pdf'' then Inl ValueError
              else Inr [(''Clustering'', JStr [CHR ''L'', CHR 0x01] :: unit jval)])
         None
         (Some \<lparr>columns = [''SourceFile'', ''Clustering''],
                rows = [[(''SourceFile'', JStr ''x.pdf''), (''Clustering'', JStr ''CorEx'')]]\<rparr>)
         [''in/a.pdf'', ''in/x.pdf'']
     = ([(''in/x.pdf'', ValueError)], Inl IllegalCharacterError)
   \<and> excel_after
         (Some \<lparr>columns = [''SourceFile'', ''Clustering''],
                rows = [[(''SourceFile'', JStr ''x.pdf''), (''Clustering'', JStr ''CorEx'' :: unit jval)]]\<rparr>)
         (Inl IllegalCharacterError)
     = PartlyWritten"
  by code_simp

text \<open>
  C7. Without a vocabulary file, \<open>enum_methods\<close> has the four category keys, each with no
  label, and \<open>normalize_map\<close> gives each the empty label set.
\<close>

theorem load_without_file:
  "enum_methods None =
     [(''AnalyzedFields'', []), (''TermPreprocessing'', []), (''Clustering'', []), (''ClusterAnalysis'', [])]
   \<and> normalize_map (enum_methods None) =
     [(''AnalyzedFields'', {||}), (''TermPreprocessing'', {||}), (''Clustering'', {||}), (''ClusterAnalysis'', {||})]"
  by (simp add: enum_methods_def normalize_map_def)

text \<open>
  C8. Idempotence. A record that normalisation returned is returned unchanged when it is
  normalised again, whatever the vocabulary has become; and a field that is a single
  canonical item (non-empty, trimmed, without \<open>;\<close>, not a case variant of the sentinel) is
  left as it is.
\<close>

theorem normalization_idempotent:
  assumes "distinct (map fst em)"
    and "fst ` set em \<subseteq> fst ` set nm"
    and "fst ` set em \<subseteq> fst ` set nm2"
    and "normalize_keys nm r em = (Inr r', nm')"
  shows "(\<exists>nm2'. normalize_keys nm2 r' em = (Inr r', nm2'))
       \<and> (\<forall>key it. key \<in> fst ` set em \<and> get_field r key = JStr it
              \<and> it \<noteq> [] \<and> strip it = it \<and> CHR '';'' \<notin> set it \<and> lower it \<noteq> ''not specified''
            \<longrightarrow> map_of r' key = Some (JStr it))"
proof -
  have strs: "\<forall>k \<in> fst ` set em. \<exists>raw. get_field r k = JStr raw"
    using assms(4) by (rule normalize_keys_success_strings)
  from normalize_keys_record [OF assms(1,2) strs] assms(4) have
    f: "\<forall>k. map_of r' k =
                 (if k \<in> fst ` set em
                  then (case get_field r k of
                          JStr raw \<Rightarrow> Some (JStr (spec_canonical raw)) | JOther x \<Rightarrow> None)
                  else map_of r k)" by auto
  have fixed: "\<forall>k \<in> fst ` set em. \<exists>t. map_of r' k = Some (JStr t) \<and> spec_canonical t = t"
  proof
    fix k assume k: "k \<in> fst ` set em"
    with strs obtain raw where "get_field r k = JStr raw" by blast
    with f k have "map_of r' k = Some (JStr (spec_canonical raw))" by simp
    then show "\<exists>t. map_of r' k = Some (JStr t) \<and> spec_canonical t = t"
      by (simp add: spec_canonical_idem)
  qed
  have again: "\<exists>nm2'. normalize_keys nm2 r' em = (Inr r', nm2')"
    using normalize_keys_fixed [OF assms(3) fixed] .
  have single: "\<forall>key it. key \<in> fst ` set em \<and> get_field r key = JStr it
              \<and> it \<noteq> [] \<and> strip it = it \<and> CHR '';'' \<notin> set it \<and> lower it \<noteq> ''not specified''
            \<longrightarrow> map_of r' key = Some (JStr it)"
    using f by (simp add: spec_canonical_single)
  from again single show ?thesis by blast
qed

theorem normalization_idempotent_witness:
  "normalize_keys (normalize_map (enum_methods None))
      [(''Clustering'', JStr '' BERTopic ;; not SPECIFIED; CorEx '' :: unit jval), (''AnalyzedFields'', JStr ''Keywords'')]
      (enum_methods None)
     = (Inr [(''Clustering'', JStr ''BERTopic; Not specified; CorEx''), (''AnalyzedFields'', JStr ''Keywords''),
             (''TermPreprocessing'', JStr ''Not specified''), (''ClusterAnalysis'', JStr ''Not specified'')],
        [(''AnalyzedFields'', {|''Keywords''|}), (''TermPreprocessing'', {||}),
         (''Clustering'', {|''BERTopic'', ''CorEx''|}), (''ClusterAnalysis'', {||})])
   \<and> (\<exists>nm2'. normalize_keys
          [(''AnalyzedFields'', {|''Keywords''|}), (''TermPreprocessing'', {||}),
           (''Clustering'', {|''BERTopic'', ''CorEx''|}), (''ClusterAnalysis'', {||})]
          [(''Clustering'', JStr ''BERTopic; Not specified; CorEx'' :: unit jval), (''AnalyzedFields'', JStr ''Keywords''),
           (''TermPreprocessing'', JStr ''Not specified''), (''ClusterAnalysis'', JStr ''Not specified'')]
          (enum_methods None)
        = (Inr [(''Clustering'', JStr ''BERTopic; Not specified; CorEx''), (''AnalyzedFields'', JStr ''Keywords''),
                (''TermPreprocessing'', JStr ''Not specified''), (''ClusterAnalysis'', JStr ''Not specified'')],
           nm2'))"
proof -
  let ?em = "enum_methods None"
  let ?nm2 = "[(''AnalyzedFields'', {|''Keywords''|}), (''TermPreprocessing'', {||}),
         (''Clustering'', {|''BERTopic'', ''CorEx''|}), (''ClusterAnalysis'', {||})]"
  have h1: "distinct (map fst ?em)" by (simp add: enum_methods_def)
  have h2: "fst ` set ?em \<subseteq> fst ` set (normalize_map ?em)"
    by (simp add: enum_methods_def normalize_map_def)
  have h3: "fst ` set ?em \<subseteq> fst ` set ?nm2"
    by (simp add: enum_methods_def)
  have run: "normalize_keys (normalize_map (enum_methods None))
      [(''Clustering'', JStr '' BERTopic ;; not SPECIFIED; CorEx '' :: unit jval), (''AnalyzedFields'', JStr ''Keywords'')]
      (enum_methods None)
     = (Inr [(''Clustering'', JStr ''BERTopic; Not specified; CorEx''), (''AnalyzedFields'', JStr ''Keywords''),
             (''TermPreprocessing'', JStr ''Not specified''), (''ClusterAnalysis'', JStr ''Not specified'')],
        ?nm2)"
    by code_simp
  from normalization_idempotent [OF h1 h2 h3 run] run show ?thesis by blast
qed

text \<open>
  C9. Frame property. Normalisation of a record whose category fields are strings or absent
  succeeds whatever other keys the record has, and every key that is not a category of
  \<open>enum_methods\<close> (the title, the counts, an unrecognised category) keeps its value.
\<close>

theorem normalization_frame:
  assumes "distinct (map fst em)"
    and "fst ` set em \<subseteq> fst ` set nm"
    and "\<forall>key \<in> fst ` set em. \<exists>raw. get_field r key = JStr raw"
  shows "\<exists>r' nm'. normalize_keys nm r em = (Inr r', nm')
           \<and> (\<forall>k. k \<notin> fst ` set em \<longrightarrow> map_of r' k = map_of r k)"
  using normalize_keys_record [OF assms] by (metis (no_types, lifting))

theorem normalization_frame_witness:
  "\<exists>r' nm'.
      normalize_keys (normalize_map (enum_methods None))
        [(''Document'', JStr ''Topic modeling of seawater desalination research''),
         (''Clustering'', JStr ''LDA ;DTM''), (''Tools'', JStr '' gensim ; ''),
         (''PaperCount'', JOther (11942 :: nat)), (''TermCount'', JStr ''500 terms'')]
        (enum_methods None) = (Inr r', nm')
      \<and> map_of r' ''Document'' = Some (JStr ''Topic modeling of seawater desalination research'')
      \<and> map_of r' ''Tools'' = Some (JStr '' gensim ; '')
      \<and> map_of r' ''PaperCount'' = Some (JOther 11942)
      \<and> map_of r' ''TermCount'' = Some (JStr ''500 terms'')
      \<and> map_of r' ''SourceFile'' = None"
proof -
  let ?em = "enum_methods None"
  let ?r = "[(''Document'', JStr ''Topic modeling of seawater desalination research''),
         (''Clustering'', JStr ''LDA ;DTM''), (''Tools'', JStr '' gensim ; ''),
         (''PaperCount'', JOther (11942 :: nat)), (''TermCount'', JStr ''500 terms'')]"
  have h1: "distinct (map fst ?em)" by (simp add: enum_methods_def)
  have h2: "fst ` set ?em \<subseteq> fst ` set (normalize_map ?em)"
    by (simp add: enum_methods_def normalize_map_def)
  have h3: "\<forall>key \<in> fst ` set ?em. \<exists>raw. get_field ?r key = JStr raw"
    by (simp add: enum_methods_def get_field_def)
  have out: "''Document'' \<notin> fst ` set ?em" "''Tools'' \<notin> fst ` set ?em" "''PaperCount'' \<notin> fst ` set ?em"
    "''TermCount'' \<notin> fst ` set ?em" "''SourceFile'' \<notin> fst ` set ?em"
    by (simp_all add: enum_methods_def)
  from normalization_frame [OF h1 h2 h3] obtain r' nm' where
    res: "normalize_keys (normalize_map ?em) ?r ?em = (Inr r', nm')"
    and same: "\<forall>k. k \<notin> fst ` set ?em \<longrightarrow> map_of r' k = map_of ?r k"
    by blast
  from same out have
    "map_of r' ''Document'' = Some (JStr ''Topic modeling of seawater desalination research'')"
    "map_of r' ''Tools'' = Some (JStr '' gensim ; '')"
    "map_of r' ''PaperCount'' = Some (JOther 11942)"
    "map_of r' ''TermCount'' = Some (JStr ''500 terms'')"
    "map_of r' ''SourceFile'' = None"
    by simp_all
  with res show ?thesis by blast
qed

text \<open>
  C10, as amended. When the run reaches \<open>save_methods\<close>, the saved file has the categories of
  the loaded one, and each category's saved labels are the loaded labels united with the
  trimmed non-sentinel items of every field of that category that normalisation reached:
  the fields of the records normalised successfully, and also the fields that precede a
  non-string field in a record whose normalisation then failed. When no record has a
  non-string category field, these are the fields of the successful normalisations. The
  guard of line 119 is equivalent to an unconditional insert whenever the live label set
  holds the loaded labels.
\<close>

theorem saved_vocabulary:
  assumes "distinct (map fst (enum_methods file))"
    and "main extractor file excel pdfs = (errs, Inr (df_merged, saved))"
  shows "map fst saved = map fst (enum_methods file)
       \<and> (\<forall>key loaded. (key, loaded) \<in> set (enum_methods file) \<longrightarrow>
            (\<exists>written. map_of saved key = Some written
               \<and> fset_of_list written =
                   fset_of_list loaded |\<union>| observed (run_fields extractor (enum_methods file) pdfs) key))
       \<and> ((\<forall>pdf \<in> set pdfs. \<forall>r. extractor pdf = Inr r \<longrightarrow> all_strings (enum_methods file) r) \<longrightarrow>
            run_fields extractor (enum_methods file) pdfs = successful_fields extractor (enum_methods file) pdfs)
       \<and> (\<forall>key known nm labels normalized its.
            map_of nm key = Some labels \<and> fset_of_list known |\<subseteq>| labels \<longrightarrow>
            normalize_items key known nm normalized its = normalize_items_unguarded key nm normalized its)"
proof -
  let ?em = "enum_methods file"
  obtain recs errs' nm' where loop: "main_loop extractor ?em ([], [], normalize_map ?em) pdfs = (recs, errs', nm')"
    by (cases "main_loop extractor ?em ([], [], normalize_map ?em) pdfs") auto
  from assms(2) loop have saved: "saved = save_methods nm'"
    by (auto simp: main_def Let_def split: sum.splits)
  have grows: "vocabulary_grows (normalize_map ?em) nm'"
    using main_loop_grows [of "normalize_map ?em" extractor ?em "[]" "[]" pdfs] loop by simp
  have keys: "map fst saved = map fst ?em"
    using vocabulary_grows_keys [OF grows]
    by (simp add: saved save_methods_def normalize_map_def comp_def split_beta)
  have ok: "vocabulary_ok ?em (normalize_map ?em)"
    using assms(1) by (rule vocabulary_ok_init)
  have voc: "\<And>k. map_of nm' k =
      map_option (\<lambda>l. l |\<union>| observed (run_fields extractor ?em pdfs) k) (map_of (normalize_map ?em) k)"
    using main_loop_vocabulary [OF assms(1) ok, of extractor "[]" "[]" pdfs] loop by simp
  have written: "\<forall>key loaded. (key, loaded) \<in> set ?em \<longrightarrow>
            (\<exists>written. map_of saved key = Some written
               \<and> fset_of_list written =
                   fset_of_list loaded |\<union>| observed (run_fields extractor ?em pdfs) key)"
  proof (intro allI impI)
    fix key loaded assume "(key, loaded) \<in> set ?em"
    with assms(1) have "map_of ?em key = Some loaded" by simp
    then show "\<exists>written. map_of saved key = Some written
               \<and> fset_of_list written =
                   fset_of_list loaded |\<union>| observed (run_fields extractor ?em pdfs) key"
      by (simp add: saved map_of_save_methods voc map_of_normalize_map)
  qed
  from keys written run_fields_successful [of pdfs extractor ?em] guard_equivalent
  show ?thesis by blast
qed

theorem saved_vocabulary_witness:
  "distinct (map fst (enum_methods (Some [(''Clustering'', [''LDA''])])))
   \<and> main (\<lambda>p. if p = ''d/a.pdf'' then Inr [(''Clustering'', JStr ''LDA; BERTopic ; not specified'' :: unit jval)]
                 else Inl RuntimeError)
        (Some [(''Clustering'', [''LDA''])]) None [''d/a.pdf'', ''d/b.pdf'']
      = ([(''d/b.pdf'', RuntimeError)],
         Inr (\<lparr>columns = [''Clustering'', ''SourceFile''],
               rows = [[(''Clustering'', JStr ''LDA; BERTopic; Not specified''), (''SourceFile'', JStr ''a.pdf'')]]\<rparr>,
              [(''Clustering'', [''BERTopic'', ''LDA''])]))
   \<and> (\<exists>written. map_of [(''Clustering'', [''BERTopic'', ''LDA''])] ''Clustering'' = Some written
          \<and> fset_of_list written =
              fset_of_list [''LDA''] |\<union>|
              observed
                (run_fields
                   (\<lambda>p. if p = ''d/a.pdf'' then Inr [(''Clustering'', JStr ''LDA; BERTopic ; not specified'' :: unit jval)]
                        else Inl RuntimeError)
                   (enum_methods (Some [(''Clustering'', [''LDA''])])) [''d/a.pdf'', ''d/b.pdf''])
                ''Clustering'')"
proof -
  let ?ex = "\<lambda>p. if p = ''d/a.pdf'' then Inr [(''Clustering'', JStr ''LDA; BERTopic ; not specified'' :: unit jval)]
                 else Inl RuntimeError"
  let ?file = "Some [(''Clustering'', [''LDA''])]"
  have h1: "distinct (map fst (enum_methods ?file))"
    by (simp add: enum_methods_def)
  have run: "main ?ex ?file None [''d/a.pdf'', ''d/b.pdf'']
      = ([(''d/b.pdf'', RuntimeError)],
         Inr (\<lparr>columns = [''Clustering'', ''SourceFile''],
               rows = [[(''Clustering'', JStr ''LDA; BERTopic; Not specified''), (''SourceFile'', JStr ''a.pdf'')]]\<rparr>,
              [(''Clustering'', [''BERTopic'', ''LDA''])]))"
    by code_simp
  have mem: "(''Clustering'', [''LDA'']) \<in> set (enum_methods ?file)"
    by (simp add: enum_methods_def)
  from saved_vocabulary [OF h1 run] mem h1 run show ?thesis
    by blast
qed

text \<open>
  C10 as stated fails: a record with the field \<open>AnalyzedFields = "Title"\<close> and a non-string
  \<open>TermPreprocessing\<close> raises \<open>AttributeError\<close> at the second category, after \<open>Title\<close> was added;
  the label is saved, although no record was normalised successfully.
\<close>

theorem saved_vocabulary_counterexample:
  "main (\<lambda>p. Inr [(''AnalyzedFields'', JStr ''Title''), (''TermPreprocessing'', JOther ())])
        None None [''a.pdf'']
     = ([(''a.pdf'', AttributeError)],
        Inr (\<lparr>columns = [], rows = []\<rparr>,
             [(''AnalyzedFields'', [''Title'']), (''TermPreprocessing'', []),
              (''Clustering'', []), (''ClusterAnalysis'', [])]))
   \<and> fset_of_list [''Title''] \<noteq>
       fset_of_list [] |\<union>|
       observed
         (successful_fields (\<lambda>p. Inr [(''AnalyzedFields'', JStr ''Title''), (''TermPreprocessing'', JOther ())])
            (enum_methods None) [''a.pdf''])
         ''AnalyzedFields''"
  by code_simp

end
